theory Spec2Isabelle
  imports Complex_Main
begin

section \<open>JavaScript values\<close>

text \<open>
  A JavaScript number, as far as the client code looks at it: the code only tests numbers
  against zero (\<^verbatim>\<open>=== 0.0\<close>, \<^verbatim>\<open>> 0\<close>) and hands them to React, which compares
  dependencies with \<^verbatim>\<open>Object.is\<close>. The finite values are a real number (every double is
  one), with negative zero, the infinities and NaN apart. With this representation
  \<^verbatim>\<open>Object.is\<close> on numbers is HOL equality: NaN is the same value as NaN, and
  \<^verbatim>\<open>+0\<close> and \<^verbatim>\<open>-0\<close> are different values.
\<close>

datatype number = NumNaN | NumPosInf | NumNegInf | NumNegZero | Num real

text \<open>\<^verbatim>\<open>x === 0.0\<close>: true for both zeros, false for NaN.\<close>

fun strict_eq_zero :: "number \<Rightarrow> bool" where
  "strict_eq_zero (Num r) = (r = 0)"
| "strict_eq_zero NumNegZero = True"
| "strict_eq_zero _ = False"

text \<open>\<^verbatim>\<open>x > 0\<close>: false for NaN and for both zeros.\<close>

fun gt_zero :: "number \<Rightarrow> bool" where
  "gt_zero (Num r) = (0 < r)"
| "gt_zero NumPosInf = True"
| "gt_zero _ = False"

text \<open>
  A value of unknown static type (the declaration of \<^verbatim>\<open>BoxMessage\<close> is not part of the
  sources at hand). An object, an array included, is its reference; HOL equality on
  \<open>jsval\<close> is \<^verbatim>\<open>Object.is\<close>.
\<close>

datatype jsval =
  JUndefined | JNull | JBool bool | JNumber number | JString string | JObject nat

section \<open>The environment store\<close>

text \<open>
  The state of the store that \<^verbatim>\<open>useEnvironmentState\<close> declares. The \<^verbatim>\<open>type\<close> fields of
  the two messages are constants of their types and are left out.
\<close>

record environment_map_message =
  hdri :: string
  background :: bool
  background_blurriness :: number
  background_intensity :: number
  background_wxyz :: "number \<times> number \<times> number \<times> number"
  environment_intensity :: number
  environment_wxyz :: "number \<times> number \<times> number \<times> number"

record fog_message =
  near :: number
  far :: number
  color :: "number \<times> number \<times> number"
  enabled :: bool

record environment_state =
  enableDefaultLights :: bool
  enableDefaultLightsShadows :: bool
  environmentMap :: environment_map_message
  fog :: fog_message

text \<open>The state the initializer passed to \<^verbatim>\<open>create\<close> returns.\<close>

definition initial_environment :: environment_state where
  "initial_environment =
     \<lparr>enableDefaultLights = True,
      enableDefaultLightsShadows = True,
      environmentMap =
        \<lparr>hdri = ''city'', background = False, background_blurriness = Num 0,
         background_intensity = Num 1, background_wxyz = (Num 1, Num 0, Num 0, Num 0),
         environment_intensity = Num 1, environment_wxyz = (Num 1, Num 0, Num 0, Num 0)\<rparr>,
      fog = \<lparr>near = Num 10, far = Num 50, color = (Num 255, Num 255, Num 255),
             enabled = False\<rparr>\<rparr>"

text \<open>
  The stores that exist, in the order of their creation; a store is its position.
  \<^verbatim>\<open>create\<close> of the state library makes a new store holding the initial state;
  \<^verbatim>\<open>getState\<close> reads a store; \<^verbatim>\<open>setState\<close> replaces the state of one store by the
  state merged with the given fields (the argument maps the state to the merged state).
  The store of \<^verbatim>\<open>useEnvironmentState\<close> has no actions of its own: \<^verbatim>\<open>setState\<close> is its only
  write path.
\<close>

type_synonym store_heap = "environment_state list"

definition create :: "environment_state \<Rightarrow> store_heap \<Rightarrow> nat \<times> store_heap" where
  "create init sh = (length sh, sh @ [init])"

definition getState :: "nat \<Rightarrow> store_heap \<Rightarrow> environment_state" where
  "getState st sh = sh ! st"

definition setState ::
  "nat \<Rightarrow> (environment_state \<Rightarrow> environment_state) \<Rightarrow> store_heap \<Rightarrow> store_heap" where
  "setState st f sh = sh[st := f (sh ! st)]"

text \<open>
  \<^verbatim>\<open>React.useState(() => create(...))[0]\<close>: the slot of the calling component is empty on
  its first render, when the initializer runs; later renders return the stored value.
\<close>

definition useEnvironmentState :: "nat option \<Rightarrow> store_heap \<Rightarrow> nat \<times> nat option \<times> store_heap" where
  "useEnvironmentState slot sh =
     (case slot of
        None \<Rightarrow> (let (st, sh') = create initial_environment sh in (st, Some st, sh'))
      | Some st \<Rightarrow> (st, slot, sh))"

section \<open>The rendering backend: objects, constructors, dispose\<close>

text \<open>
  Every constructor call of the rendering library appends an entry to \<open>heap\<close>; the
  position of the entry is the identity of the object. The second component of an entry
  records the node whose render made the call (it is bookkeeping for the statements
  below; no code reads it). \<open>disposed\<close> is the log of \<^verbatim>\<open>dispose()\<close> calls, the most
  recent first. \<open>boxGeometry\<close> is the module variable of \<^verbatim>\<open>BoxMesh.tsx\<close>.
\<close>

datatype three_kind = StandardMaterial | ShadowMaterial number | BoxGeometry

record world =
  heap :: "(three_kind \<times> nat) list"
  disposed :: "nat list"
  boxGeometry :: "nat option"

definition alloc :: "three_kind \<Rightarrow> nat \<Rightarrow> world \<Rightarrow> world" where
  "alloc k owner w = w\<lparr>heap := heap w @ [(k, owner)]\<rparr>"

definition new_object :: "three_kind \<Rightarrow> nat \<Rightarrow> world \<Rightarrow> nat \<times> world" where
  "new_object k owner w = (length (heap w), alloc k owner w)"

definition dispose :: "nat \<Rightarrow> world \<Rightarrow> world" where
  "dispose m w = w\<lparr>disposed := m # disposed w\<rparr>"

section \<open>React hooks\<close>

text \<open>
  \<^verbatim>\<open>React.useMemo(factory, deps)\<close>: the slot holds the dependencies and the value of the
  last computation. The factory runs on the first render and whenever the dependencies
  differ (by \<^verbatim>\<open>Object.is\<close>, element by element) from the stored ones.
\<close>

definition useMemo ::
  "(world \<Rightarrow> 'v \<times> world) \<Rightarrow> 'd \<Rightarrow> ('d \<times> 'v) option \<Rightarrow> world \<Rightarrow> 'v \<times> ('d \<times> 'v) option \<times> world"
where
  "useMemo factory deps slot w =
     (case slot of
        None \<Rightarrow> (let (v, w') = factory w in (v, Some (deps, v), w'))
      | Some (d, v0) \<Rightarrow>
          if d = deps then (v0, slot, w)
          else (let (v, w') = factory w in (v, Some (deps, v), w')))"

section \<open>BoxMesh\<close>

datatype scale_val = ScaleNumber number | ScaleTriple number number number

datatype receive_shadow_val = RSBool bool | RSNumber number

record box_props =
  material :: jsval
  color :: jsval
  wireframe :: jsval
  opacity :: jsval
  flat_shading :: jsval
  side :: jsval
  scale :: scale_val
  dimensions :: "number \<times> number \<times> number"
  cast_shadow :: bool
  receive_shadow :: receive_shadow_val

text \<open>\<^verbatim>\<open>normalizeScale\<close>: a number becomes the triple of its copies.\<close>

fun normalizeScale :: "scale_val \<Rightarrow> number \<times> number \<times> number" where
  "normalizeScale (ScaleNumber s) = (s, s, s)"
| "normalizeScale (ScaleTriple x y z) = (x, y, z)"

text \<open>The dependency array of the material's \<^verbatim>\<open>useMemo\<close>.\<close>

definition material_deps :: "box_props \<Rightarrow> jsval list" where
  "material_deps p =
     [material p, color p, wireframe p, opacity p, flat_shading p, side p]"

text \<open>
  Modelled from the spec: \<^verbatim>\<open>createStandardMaterial\<close> (\<^verbatim>\<open>MeshUtils\<close>, not among the
  sources) is the factory of the material slot: each call constructs a new material
  object from the properties.
\<close>

definition createStandardMaterial :: "nat \<Rightarrow> box_props \<Rightarrow> world \<Rightarrow> nat option \<times> world" where
  "createStandardMaterial owner p w =
     (let (m, w') = new_object StandardMaterial owner w in (Some m, w'))"

text \<open>The hook slots of one mounted \<^verbatim>\<open>BoxMesh\<close>, in the order of the calls. The cleanup
  closure of the effect captures \<^verbatim>\<open>material\<close>, which is also the effect's only
  dependency: the effect slot stores that value (\<open>None\<close> at the outer level before the
  first commit; the inner option is the JavaScript value, \<open>None\<close> for \<^verbatim>\<open>null\<close>).\<close>

record box_hooks =
  material_memo :: "(jsval list \<times> nat option) option"
  material_effect :: "nat option option"
  shadow_memo :: "(number \<times> nat option) option"

definition fresh_hooks :: box_hooks where
  "fresh_hooks = \<lparr>material_memo = None, material_effect = None, shadow_memo = None\<rparr>"

text \<open>What the component returns: the primary mesh and, when present, the shadow
  sub-mesh (its geometry and its material). The scaled dimensions are a product of
  floating-point numbers and are left out.\<close>

record box_view =
  view_geometry :: "nat option"
  view_material :: "nat option"
  view_castShadow :: bool
  view_receiveShadow :: bool
  view_shadow_mesh :: "(nat option \<times> nat option) option"

definition shadowOpacity :: "box_props \<Rightarrow> number" where
  "shadowOpacity p = (case receive_shadow p of RSNumber x \<Rightarrow> x | RSBool b \<Rightarrow> Num 0)"

definition shadow_factory :: "nat \<Rightarrow> number \<Rightarrow> world \<Rightarrow> nat option \<times> world" where
  "shadow_factory owner so w =
     (if strict_eq_zero so then (None, w)
      else (let (m, w') = new_object (ShadowMaterial so) owner w in (Some m, w')))"

text \<open>The body of the component, for the node \<open>n\<close>.\<close>

definition BoxMesh :: "nat \<Rightarrow> box_props \<Rightarrow> box_hooks \<times> world \<Rightarrow> box_view \<times> box_hooks \<times> world" where
  "BoxMesh n p = (\<lambda>(h, w).
     let (mat, mm, w1) =
           useMemo (createStandardMaterial n p) (material_deps p) (material_memo h) w;
         w2 = (case boxGeometry w1 of
                 None \<Rightarrow> (let (g, w') = new_object BoxGeometry n w1
                          in w'\<lparr>boxGeometry := Some g\<rparr>)
               | Some g \<Rightarrow> w1);
         so = shadowOpacity p;
         (shadowMaterial, sm, w3) = useMemo (shadow_factory n so) so (shadow_memo h) w2;
         v = \<lparr>view_geometry = boxGeometry w3,
              view_material = mat,
              view_castShadow = cast_shadow p,
              view_receiveShadow = (receive_shadow p = RSBool True),
              view_shadow_mesh =
                (if shadowMaterial \<noteq> None \<and> gt_zero so
                 then Some (boxGeometry w3, shadowMaterial) else None)\<rparr>
     in (v, h\<lparr>material_memo := mm, shadow_memo := sm\<rparr>, w3))"

text \<open>The cleanup function of the material effect: \<^verbatim>\<open>if (material) material.dispose()\<close>.\<close>

definition material_cleanup :: "nat option \<Rightarrow> world \<Rightarrow> world" where
  "material_cleanup mat w = (case mat of Some m \<Rightarrow> dispose m w | None \<Rightarrow> w)"

text \<open>
  The commit of \<^verbatim>\<open>React.useEffect(..., [material])\<close>: on mount the effect runs and
  leaves its cleanup; on an update whose dependency differs the previous cleanup runs and
  the effect runs again; otherwise nothing happens.
\<close>

definition commit_effects :: "nat option \<Rightarrow> box_hooks \<times> world \<Rightarrow> box_hooks \<times> world" where
  "commit_effects mat = (\<lambda>(h, w).
     case material_effect h of
       None \<Rightarrow> (h\<lparr>material_effect := Some mat\<rparr>, w)
     | Some old \<Rightarrow>
         if old = mat then (h, w)
         else (h\<lparr>material_effect := Some mat\<rparr>, material_cleanup old w))"

text \<open>One settled reconciliation pass of a node: the render, then the commit.\<close>

definition pass :: "nat \<Rightarrow> box_props \<Rightarrow> box_hooks \<times> world \<Rightarrow> box_view \<times> box_hooks \<times> world" where
  "pass n p hw =
     (let (v, h1, w1) = BoxMesh n p hw;
          (h2, w2) = commit_effects (view_material v) (h1, w1)
      in (v, h2, w2))"

text \<open>Unmounting runs the cleanup functions that are pending.\<close>

definition unmount_cleanup :: "box_hooks \<Rightarrow> world \<Rightarrow> world" where
  "unmount_cleanup h w =
     (case material_effect h of None \<Rightarrow> w | Some old \<Rightarrow> material_cleanup old w)"

subsection \<open>A scene of box nodes\<close>

record scene =
  instances :: "nat \<Rightarrow> box_hooks option"
  the_world :: world

datatype event = Render nat box_props | Unmount nat

definition init_scene :: scene where
  "init_scene = \<lparr>instances = (\<lambda>n. None),
                 the_world = \<lparr>heap = [], disposed = [], boxGeometry = None\<rparr>\<rparr>"

definition hooks_of :: "scene \<Rightarrow> nat \<Rightarrow> box_hooks" where
  "hooks_of s n = (case instances s n of None \<Rightarrow> fresh_hooks | Some h \<Rightarrow> h)"

definition render_view :: "nat \<Rightarrow> box_props \<Rightarrow> scene \<Rightarrow> box_view" where
  "render_view n p s = fst (pass n p (hooks_of s n, the_world s))"

fun step :: "scene \<Rightarrow> event \<Rightarrow> scene" where
  "step s (Render n p) =
     (let (v, h, w) = pass n p (hooks_of s n, the_world s)
      in \<lparr>instances = (instances s)(n := Some h), the_world = w\<rparr>)"
| "step s (Unmount n) =
     (case instances s n of
        None \<Rightarrow> s
      | Some h \<Rightarrow> \<lparr>instances = (instances s)(n := None),
                   the_world = unmount_cleanup h (the_world s)\<rparr>)"

definition run :: "scene \<Rightarrow> event list \<Rightarrow> scene" where
  "run s evs = foldl step s evs"

text \<open>The live materials of the primary slot that the renders of node \<open>n\<close> created.\<close>

definition live_materials :: "nat \<Rightarrow> world \<Rightarrow> nat list" where
  "live_materials n w =
     filter (\<lambda>i. heap w ! i = (StandardMaterial, n) \<and> i \<notin> set (disposed w))
       [0..<length (heap w)]"

definition current_material :: "scene \<Rightarrow> nat \<Rightarrow> nat list" where
  "current_material s n =
     (case instances s n of
        None \<Rightarrow> []
      | Some h \<Rightarrow> (case material_memo h of Some (d, Some m) \<Rightarrow> [m] | _ \<Rightarrow> []))"

section \<open>Hover state and the cursor\<close>

text \<open>
  What the scene-node component keeps for the hover of one node: the attributes it reads
  (\<^verbatim>\<open>node.effectiveVisibility\<close>, \<^verbatim>\<open>clickable\<close>) and its \<^verbatim>\<open>hoveredRef\<close>. The viewer holds
  the nodes, \<^verbatim>\<open>viewerMutable.hoveredElementsCount\<close> and \<^verbatim>\<open>document.body.style.cursor\<close>.
\<close>

record hovered_ref =
  isHovered :: bool
  instanceId :: "nat option"

record node =
  effectiveVisibility :: bool
  clickable :: bool
  hoveredRef :: hovered_ref

record viewer =
  nodes :: "node list"
  hoveredElementsCount :: int
  cursor :: string

text \<open>
  The check in the \<^verbatim>\<open>useFrame\<close> callback of a node (the fix of the hover count in the
  fix report), on the node, the counter and the cursor.
\<close>

definition frame_hover_check :: "node \<Rightarrow> int \<times> string \<Rightarrow> node \<times> int \<times> string" where
  "frame_hover_check nd = (\<lambda>(cnt, cur).
     if \<not> effectiveVisibility nd \<and> isHovered (hoveredRef nd) \<and> clickable nd
     then (nd\<lparr>hoveredRef := (hoveredRef nd)\<lparr>isHovered := False, instanceId := None\<rparr>\<rparr>,
           cnt - 1,
           if cnt - 1 = 0 then ''auto'' else cur)
     else (nd, cnt, cur))"

text \<open>
  Modelled from the spec: the handling of a node whose \<^verbatim>\<open>clickable\<close> flag went false
  while it was hovered. It is in \<^verbatim>\<open>SceneTree.tsx\<close>, which is not among the sources; the
  fix report says that the code has it. The node goes to Idle and the counter is
  decremented; the cursor follows the counter.
\<close>

definition clickable_hover_check :: "node \<Rightarrow> int \<times> string \<Rightarrow> node \<times> int \<times> string" where
  "clickable_hover_check nd = (\<lambda>(cnt, cur).
     if \<not> clickable nd \<and> isHovered (hoveredRef nd)
     then (nd\<lparr>hoveredRef := (hoveredRef nd)\<lparr>isHovered := False\<rparr>\<rparr>,
           cnt - 1,
           if cnt - 1 = 0 then ''auto'' else cur)
     else (nd, cnt, cur))"

text \<open>What a frame tick does for one node, and for the nodes in their order.\<close>

definition node_tick :: "node \<Rightarrow> int \<times> string \<Rightarrow> node \<times> int \<times> string" where
  "node_tick nd cc =
     (let (nd1, cc1) = clickable_hover_check nd cc in frame_hover_check nd1 cc1)"

fun tick_nodes :: "node list \<Rightarrow> int \<times> string \<Rightarrow> node list \<times> int \<times> string" where
  "tick_nodes [] cc = ([], cc)"
| "tick_nodes (nd # nds) cc =
     (let (nd', cc') = node_tick nd cc;
          (nds', cc'') = tick_nodes nds cc'
      in (nd' # nds', cc''))"

definition frame_tick :: "viewer \<Rightarrow> viewer" where
  "frame_tick v =
     (let (nds, cnt, cur) = tick_nodes (nodes v) (hoveredElementsCount v, cursor v)
      in \<lparr>nodes = nds, hoveredElementsCount = cnt, cursor = cur\<rparr>)"

text \<open>
  Modelled from the spec: the pointer-driven transitions (the pointer handlers are in
  \<^verbatim>\<open>SceneTree.tsx\<close>, not among the sources). Idle to Hovered: the hit test, which runs
  against the clickable and effectively visible nodes, finds the node; the counter is
  incremented. Hovered to Idle: the node is no longer the hit; the counter is
  decremented. The cursor is updated when the counter leaves or reaches zero.
\<close>

definition pointer_over :: "node \<Rightarrow> int \<times> string \<Rightarrow> node \<times> int \<times> string" where
  "pointer_over nd = (\<lambda>(cnt, cur).
     if clickable nd \<and> effectiveVisibility nd \<and> \<not> isHovered (hoveredRef nd)
     then (nd\<lparr>hoveredRef := (hoveredRef nd)\<lparr>isHovered := True\<rparr>\<rparr>,
           cnt + 1,
           if cnt + 1 = 1 then ''pointer'' else cur)
     else (nd, cnt, cur))"

definition pointer_out :: "node \<Rightarrow> int \<times> string \<Rightarrow> node \<times> int \<times> string" where
  "pointer_out nd = (\<lambda>(cnt, cur).
     if isHovered (hoveredRef nd)
     then (nd\<lparr>hoveredRef := (hoveredRef nd)\<lparr>isHovered := False\<rparr>\<rparr>,
           cnt - 1,
           if cnt - 1 = 0 then ''auto'' else cur)
     else (nd, cnt, cur))"

text \<open>An operation on the node at position \<open>i\<close>; a position outside the list is no node.\<close>

definition on_node ::
  "nat \<Rightarrow> (node \<Rightarrow> int \<times> string \<Rightarrow> node \<times> int \<times> string) \<Rightarrow> viewer \<Rightarrow> viewer" where
  "on_node i f v =
     (if i < length (nodes v)
      then (let (nd, cnt, cur) = f (nodes v ! i) (hoveredElementsCount v, cursor v)
            in \<lparr>nodes = (nodes v)[i := nd], hoveredElementsCount = cnt, cursor = cur\<rparr>)
      else v)"

datatype hover_event =
  PointerOver nat | PointerOut nat | SetVisible nat bool | SetClickable nat bool | FrameTick

fun hover_step :: "viewer \<Rightarrow> hover_event \<Rightarrow> viewer" where
  "hover_step v (PointerOver i) = on_node i pointer_over v"
| "hover_step v (PointerOut i) = on_node i pointer_out v"
| "hover_step v (SetVisible i b) =
     on_node i (\<lambda>nd cc. (nd\<lparr>effectiveVisibility := b\<rparr>, cc)) v"
| "hover_step v (SetClickable i b) =
     on_node i (\<lambda>nd cc. (nd\<lparr>clickable := b\<rparr>, cc)) v"
| "hover_step v FrameTick = frame_tick v"

definition hover_run :: "viewer \<Rightarrow> hover_event list \<Rightarrow> viewer" where
  "hover_run v evs = foldl hover_step v evs"

text \<open>A viewer whose nodes have the given visibility and clickability and where nothing is
  hovered.\<close>

definition idle_node :: "bool \<times> bool \<Rightarrow> node" where
  "idle_node vc =
     \<lparr>effectiveVisibility = fst vc, clickable = snd vc,
      hoveredRef = \<lparr>isHovered = False, instanceId = None\<rparr>\<rparr>"

definition init_viewer :: "(bool \<times> bool) list \<Rightarrow> viewer" where
  "init_viewer attrs =
     \<lparr>nodes = map idle_node attrs, hoveredElementsCount = 0, cursor = ''auto''\<rparr>"

text \<open>The number of nodes whose hover flag is set.\<close>

definition hovered_nodes :: "node list \<Rightarrow> int" where
  "hovered_nodes nds = int (length (filter (\<lambda>nd. isHovered (hoveredRef nd)) nds))"

section \<open>The texture of an image node\<close>

text \<open>
  The texture-loading effect of \<^verbatim>\<open>ViserImage\<close>, as the fix report gives it. Loads are
  numbered in the order in which the effect issues them; load \<open>k\<close> produces texture \<open>k\<close>.
  \<open>cancelled\<close> holds the \<^verbatim>\<open>cancelled\<close> variable of each run of the effect, \<open>fired\<close> tells
  whether the callback of each load has been called, \<open>tex_disposed\<close> is the log of
  \<^verbatim>\<open>dispose()\<close> calls on textures, the most recent first.
\<close>

record image_slot =
  textureRef :: "nat option"
  imageTexture :: "nat option"
  cancelled :: "bool list"
  fired :: "bool list"
  tex_disposed :: "nat list"
  unmounted :: bool

definition init_slot :: image_slot where
  "init_slot =
     \<lparr>textureRef = None, imageTexture = None, cancelled = [], fired = [],
      tex_disposed = [], unmounted = False\<rparr>"

text \<open>The cleanup of the latest run of the effect: \<^verbatim>\<open>cancelled = true\<close>.\<close>

definition effect_cleanup :: "image_slot \<Rightarrow> image_slot" where
  "effect_cleanup s = s\<lparr>cancelled := (cancelled s)[length (cancelled s) - 1 := True]\<rparr>"

text \<open>A change of the image data runs the cleanup of the previous run and then the effect:
  a new \<^verbatim>\<open>cancelled = false\<close> and a new load.\<close>

definition issue_load :: "image_slot \<Rightarrow> image_slot" where
  "issue_load s =
     (let s1 = effect_cleanup s
      in s1\<lparr>cancelled := cancelled s1 @ [False], fired := fired s1 @ [False]\<rparr>)"

text \<open>The callback of load \<open>k\<close>, called with its texture.\<close>

definition on_load :: "nat \<Rightarrow> image_slot \<Rightarrow> image_slot" where
  "on_load k s =
     (let s0 = s\<lparr>fired := (fired s)[k := True]\<rparr>
      in if \<not> cancelled s ! k
         then (let s1 = (case textureRef s0 of
                           Some old \<Rightarrow> s0\<lparr>tex_disposed := old # tex_disposed s0\<rparr>
                         | None \<Rightarrow> s0)
               in s1\<lparr>textureRef := Some k, imageTexture := Some k\<rparr>)
         else s0\<lparr>tex_disposed := k # tex_disposed s0\<rparr>)"

text \<open>Unmounting runs the cleanup of the latest run.\<close>

definition teardown :: "image_slot \<Rightarrow> image_slot" where
  "teardown s = (effect_cleanup s)\<lparr>unmounted := True\<rparr>"

text \<open>
  What can happen to the slot. The loader calls the callback of a load once, after the
  load was issued; a component that is unmounted issues no load and is not unmounted
  again. A sequence of events that does otherwise has no result.
\<close>

datatype loader_event = Issue | Complete nat | Teardown

fun loader_step :: "image_slot \<Rightarrow> loader_event \<Rightarrow> image_slot option" where
  "loader_step s Issue = (if unmounted s then None else Some (issue_load s))"
| "loader_step s (Complete k) =
     (if k < length (fired s) \<and> \<not> fired s ! k then Some (on_load k s) else None)"
| "loader_step s Teardown = (if unmounted s then None else Some (teardown s))"

fun loader_run :: "image_slot \<Rightarrow> loader_event list \<Rightarrow> image_slot option" where
  "loader_run s [] = Some s"
| "loader_run s (e # evs) =
     (case loader_step s e of None \<Rightarrow> None | Some s' \<Rightarrow> loader_run s' evs)"

text \<open>The textures that were produced and not disposed.\<close>

definition live_textures :: "image_slot \<Rightarrow> nat list" where
  "live_textures s =
     filter (\<lambda>k. fired s ! k \<and> k \<notin> set (tex_disposed s)) [0..<length (fired s)]"

section \<open>Invariants of the scene of boxes\<close>

text \<open>The geometry objects that exist, in the order of their creation.\<close>

definition geometries :: "world \<Rightarrow> nat list" where
  "geometries w = filter (\<lambda>i. fst (heap w ! i) = BoxGeometry) [0..<length (heap w)]"

text \<open>The shadow slot of a mounted node caches what its factory returns for the cached
  opacity; the material slot and its effect hold the same material object.\<close>

definition shadow_ok :: "world \<Rightarrow> nat \<Rightarrow> box_hooks \<Rightarrow> bool" where
  "shadow_ok w n h \<longleftrightarrow>
     (\<exists>x v. shadow_memo h = Some (x, v) \<and> (v = None \<longleftrightarrow> strict_eq_zero x) \<and>
        (\<forall>k. v = Some k \<longrightarrow> k < length (heap w) \<and> heap w ! k = (ShadowMaterial x, n)))"

definition material_ok :: "box_hooks \<Rightarrow> bool" where
  "material_ok h \<longleftrightarrow>
     (\<exists>d m. material_memo h = Some (d, Some m) \<and> material_effect h = Some (Some m))"

text \<open>Only materials of the primary slot are ever disposed, none twice, and the module
  variable names the only geometry.\<close>

definition world_ok :: "world \<Rightarrow> bool" where
  "world_ok w \<longleftrightarrow>
     distinct (disposed w) \<and>
     (\<forall>i \<in> set (disposed w). i < length (heap w) \<and> fst (heap w ! i) = StandardMaterial) \<and>
     geometries w = (case boxGeometry w of None \<Rightarrow> [] | Some g \<Rightarrow> [g])"

definition scene_inv :: "scene \<Rightarrow> bool" where
  "scene_inv s \<longleftrightarrow>
     world_ok (the_world s) \<and>
     (\<forall>n h. instances s n = Some h \<longrightarrow> material_ok h \<and> shadow_ok (the_world s) n h) \<and>
     (\<forall>n. live_materials n (the_world s) = current_material s n)"

text \<open>The stages of a pass, one per statement of the component: what each returns and
  what it does to the world.\<close>

definition mat_changed :: "box_hooks \<Rightarrow> box_props \<Rightarrow> bool" where
  "mat_changed h p \<longleftrightarrow>
     (case material_memo h of None \<Rightarrow> True | Some (d, v) \<Rightarrow> d \<noteq> material_deps p)"

definition mat_value :: "box_hooks \<Rightarrow> box_props \<Rightarrow> world \<Rightarrow> nat option" where
  "mat_value h p w =
     (case material_memo h of
        None \<Rightarrow> Some (length (heap w))
      | Some (d, v) \<Rightarrow> if d = material_deps p then v else Some (length (heap w)))"

definition mat_step :: "nat \<Rightarrow> box_hooks \<Rightarrow> box_props \<Rightarrow> world \<Rightarrow> world" where
  "mat_step n h p w = (if mat_changed h p then alloc StandardMaterial n w else w)"

definition geo_step :: "nat \<Rightarrow> world \<Rightarrow> world" where
  "geo_step n w =
     (case boxGeometry w of
        None \<Rightarrow> (alloc BoxGeometry n w)\<lparr>boxGeometry := Some (length (heap w))\<rparr>
      | Some g \<Rightarrow> w)"

definition shadow_changed :: "box_hooks \<Rightarrow> box_props \<Rightarrow> bool" where
  "shadow_changed h p \<longleftrightarrow>
     (case shadow_memo h of None \<Rightarrow> True | Some (x, v) \<Rightarrow> x \<noteq> shadowOpacity p)"

definition shadow_value :: "box_hooks \<Rightarrow> box_props \<Rightarrow> world \<Rightarrow> nat option" where
  "shadow_value h p w =
     (if shadow_changed h p
      then (if strict_eq_zero (shadowOpacity p) then None else Some (length (heap w)))
      else (case shadow_memo h of None \<Rightarrow> None | Some (x, v) \<Rightarrow> v))"

definition shadow_step :: "nat \<Rightarrow> box_hooks \<Rightarrow> box_props \<Rightarrow> world \<Rightarrow> world" where
  "shadow_step n h p w =
     (if shadow_changed h p \<and> \<not> strict_eq_zero (shadowOpacity p)
      then alloc (ShadowMaterial (shadowOpacity p)) n w else w)"

definition commit_step :: "box_hooks \<Rightarrow> nat option \<Rightarrow> world \<Rightarrow> world" where
  "commit_step h mat w =
     (case material_effect h of
        None \<Rightarrow> w
      | Some old \<Rightarrow> if old = mat then w else material_cleanup old w)"

text \<open>Objects are only ever added.\<close>

definition heap_grows :: "world \<Rightarrow> world \<Rightarrow> bool" where
  "heap_grows w w' \<longleftrightarrow> (\<exists>xs. heap w' = heap w @ xs)"

text \<open>The part of a render after the material slot.\<close>

definition rest_step :: "nat \<Rightarrow> box_hooks \<Rightarrow> box_props \<Rightarrow> world \<Rightarrow> world" where
  "rest_step n h p w = shadow_step n h p (geo_step n w)"

text \<open>What a pass or an unmount may do to the world: add objects, keep the geometry
  invariant, and dispose at most the material \<open>old\<close>.\<close>

definition pass_shape :: "nat \<Rightarrow> nat option \<Rightarrow> world \<Rightarrow> world \<Rightarrow> bool" where
  "pass_shape n old w w' \<longleftrightarrow>
     heap_grows w w' \<and>
     (geometries w = (case boxGeometry w of None \<Rightarrow> [] | Some g \<Rightarrow> [g]) \<longrightarrow>
      geometries w' = (case boxGeometry w' of None \<Rightarrow> [] | Some g \<Rightarrow> [g])) \<and>
     (case old of
        None \<Rightarrow> disposed w' = disposed w
      | Some m \<Rightarrow> disposed w' = disposed w \<or> disposed w' = m # disposed w)"

section \<open>Notions used in the statements about BoxMesh\<close>

text \<open>The dependency array that the material slot of node \<open>n\<close> has cached.\<close>

definition cached_deps :: "scene \<Rightarrow> nat \<Rightarrow> jsval list option" where
  "cached_deps s n =
     (case instances s n of
        None \<Rightarrow> None
      | Some h \<Rightarrow> (case material_memo h of None \<Rightarrow> None | Some (d, v) \<Rightarrow> Some d))"

text \<open>The number of calls of the material factory so far.\<close>

definition material_count :: "world \<Rightarrow> nat" where
  "material_count w = length (filter (\<lambda>e. fst e = StandardMaterial) (heap w))"

definition is_Render :: "event \<Rightarrow> bool" where
  "is_Render e = (case e of Render n p \<Rightarrow> True | Unmount n \<Rightarrow> False)"

text \<open>The opacity of the shadow material of the sub-mesh of a view, when the view has a
  sub-mesh.\<close>

definition shadow_mesh_opacity :: "box_view \<Rightarrow> world \<Rightarrow> number option" where
  "shadow_mesh_opacity v w =
     (case view_shadow_mesh v of
        None \<Rightarrow> None
      | Some (g, sm) \<Rightarrow>
          (case sm of
             None \<Rightarrow> None
           | Some m \<Rightarrow>
               if m < length (heap w)
               then (case fst (heap w ! m) of ShadowMaterial x \<Rightarrow> Some x | _ \<Rightarrow> None)
               else None))"

text \<open>A box as the server sends it; the colour is an array, hence a reference.\<close>

definition example_box :: box_props where
  "example_box =
     \<lparr>material = JString ''standard'', color = JObject 0, wireframe = JBool False,
      opacity = JNull, flat_shading = JBool False, side = JString ''front'',
      scale = ScaleNumber (Num 1), dimensions = (Num 1, Num 1, Num 1),
      cast_shadow = True, receive_shadow = RSBool True\<rparr>"

text \<open>
  The signature of the material as the claim reads it: the six fields as values, an
  array by its contents. \<open>arrays\<close> gives the contents of the array behind a reference.
\<close>

datatype field_value =
  VUndefined | VNull | VBool bool | VNumber number | VString string | VArray "number list"

fun value_of :: "(nat \<Rightarrow> number list) \<Rightarrow> jsval \<Rightarrow> field_value" where
  "value_of arrays JUndefined = VUndefined"
| "value_of arrays JNull = VNull"
| "value_of arrays (JBool b) = VBool b"
| "value_of arrays (JNumber x) = VNumber x"
| "value_of arrays (JString s) = VString s"
| "value_of arrays (JObject r) = VArray (arrays r)"

definition material_signature :: "(nat \<Rightarrow> number list) \<Rightarrow> box_props \<Rightarrow> field_value list" where
  "material_signature arrays p =
     [value_of arrays (material p), value_of arrays (color p), value_of arrays (wireframe p),
      value_of arrays (opacity p), value_of arrays (flat_shading p), value_of arrays (side p)]"

text \<open>Two arrays, behind the references 0 and 1, that hold the same colour.\<close>

definition example_arrays :: "nat \<Rightarrow> number list" where
  "example_arrays r = [Num 60, Num 120, Num 200]"

section \<open>Invariants of the hover state\<close>

text \<open>The contribution of a node to the counter.\<close>

definition hv :: "node \<Rightarrow> int" where
  "hv nd = (if isHovered (hoveredRef nd) then 1 else 0)"

text \<open>The cursor agrees with the counter: \<^verbatim>\<open>pointer\<close> above zero, \<^verbatim>\<open>auto\<close> at zero.\<close>

definition cursor_ok :: "int \<Rightarrow> string \<Rightarrow> bool" where
  "cursor_ok cnt cur \<longleftrightarrow>
     0 \<le> cnt \<and> (cur = ''pointer'' \<longleftrightarrow> 0 < cnt) \<and> (cur = ''auto'' \<longleftrightarrow> cnt = 0)"

text \<open>An operation on a node changes the counter by what it changes the hover flag of
  the node, and keeps the cursor in agreement when the counter covers the flag.\<close>

definition hover_op :: "(node \<Rightarrow> int \<times> string \<Rightarrow> node \<times> int \<times> string) \<Rightarrow> bool" where
  "hover_op f \<longleftrightarrow>
     (\<forall>nd cnt cur.
        (case f nd (cnt, cur) of
           (nd', cnt', cur') \<Rightarrow>
             cnt' - hv nd' = cnt - hv nd \<and>
             (cursor_ok cnt cur \<and> hv nd \<le> cnt \<longrightarrow> cursor_ok cnt' cur')))"

definition viewer_inv :: "viewer \<Rightarrow> bool" where
  "viewer_inv v \<longleftrightarrow>
     hoveredElementsCount v = hovered_nodes (nodes v) \<and>
     cursor_ok (hoveredElementsCount v) (cursor v)"

text \<open>A hovered node that is hidden or not clickable.\<close>

definition must_clear :: "node \<Rightarrow> bool" where
  "must_clear nd \<longleftrightarrow>
     isHovered (hoveredRef nd) \<and> (\<not> effectiveVisibility nd \<or> \<not> clickable nd)"

text \<open>An operation only lowers the counter, leaves the cursor alone when it leaves the
  counter alone, and sets the cursor to \<^verbatim>\<open>auto\<close> when it lowers the counter to zero.\<close>

definition cursor_follows :: "(node \<Rightarrow> int \<times> string \<Rightarrow> node \<times> int \<times> string) \<Rightarrow> bool" where
  "cursor_follows f \<longleftrightarrow>
     (\<forall>nd cnt cur.
        (case f nd (cnt, cur) of
           (nd', cnt', cur') \<Rightarrow>
             cnt' \<le> cnt \<and> (cnt' = cnt \<longrightarrow> cur' = cur) \<and>
             (cnt' < cnt \<and> cnt' = 0 \<longrightarrow> cur' = ''auto'')))"

text \<open>Two viewers with one hovered node: hidden in the first, not clickable in the
  second.\<close>

definition hovered_hidden_viewer :: viewer where
  "hovered_hidden_viewer =
     \<lparr>nodes = [\<lparr>effectiveVisibility = False, clickable = True,
                hoveredRef = \<lparr>isHovered = True, instanceId = Some 3\<rparr>\<rparr>],
      hoveredElementsCount = 1, cursor = ''pointer''\<rparr>"

definition hovered_unclickable_viewer :: viewer where
  "hovered_unclickable_viewer =
     \<lparr>nodes = [\<lparr>effectiveVisibility = True, clickable = False,
                hoveredRef = \<lparr>isHovered = True, instanceId = None\<rparr>\<rparr>],
      hoveredElementsCount = 1, cursor = ''pointer''\<rparr>"

section \<open>Invariants of the texture slot\<close>

text \<open>
  The flag of a load is set exactly when a later load was issued or the component was
  unmounted; no texture is disposed twice; the textures produced so far are the disposed
  ones and the installed one; the installed texture is not disposed; and when the latest
  load has completed in a mounted component, its texture is the installed one.
\<close>

definition loader_inv :: "image_slot \<Rightarrow> bool" where
  "loader_inv s \<longleftrightarrow>
     length (cancelled s) = length (fired s) \<and>
     (\<forall>k < length (fired s). cancelled s ! k \<longleftrightarrow> (Suc k < length (fired s) \<or> unmounted s)) \<and>
     distinct (tex_disposed s) \<and>
     (\<forall>k. (k \<in> set (tex_disposed s) \<or> textureRef s = Some k) \<longleftrightarrow>
          (k < length (fired s) \<and> fired s ! k)) \<and>
     (\<forall>k. textureRef s = Some k \<longrightarrow> k \<notin> set (tex_disposed s)) \<and>
     (\<not> unmounted s \<and> 0 < length (fired s) \<and> fired s ! (length (fired s) - 1) \<longrightarrow>
        textureRef s = Some (length (fired s) - 1))"

text \<open>The number of loads that a sequence of events issues.\<close>

definition issued :: "loader_event list \<Rightarrow> nat" where
  "issued evs = length (filter (\<lambda>e. e = Issue) evs)"

text \<open>Three loads, the second completing before the third is issued and the first
  completing late; and the state after two loads were issued and none has completed.\<close>

definition churn_events :: "loader_event list" where
  "churn_events = [Issue, Issue, Complete 1, Issue, Complete 0, Complete 2]"

definition churn_result :: image_slot where
  "churn_result =
     \<lparr>textureRef = Some 2, imageTexture = Some 2, cancelled = [True, True, False],
      fired = [True, True, True], tex_disposed = [1, 0], unmounted = False\<rparr>"

definition pending_result :: image_slot where
  "pending_result =
     \<lparr>textureRef = None, imageTexture = None, cancelled = [True, False],
      fired = [False, False], tex_disposed = [], unmounted = False\<rparr>"

text \<open>A load whose component is unmounted before the load completes.\<close>

definition torn_result :: image_slot where
  "torn_result =
     \<lparr>textureRef = None, imageTexture = None, cancelled = [True], fired = [True],
      tex_disposed = [0], unmounted = True\<rparr>"

section \<open>Properties of BoxMesh\<close>

subsection \<open>Observations of the primitive operations\<close>

lemma alloc_fields:
  "heap (alloc k n w) = heap w @ [(k, n)]"
  "disposed (alloc k n w) = disposed w"
  "boxGeometry (alloc k n w) = boxGeometry w"
  by (simp_all add: alloc_def)

lemma dispose_fields:
  "heap (dispose m w) = heap w"
  "disposed (dispose m w) = m # disposed w"
  "boxGeometry (dispose m w) = boxGeometry w"
  by (simp_all add: dispose_def)

lemma live_materials_alloc:
  "live_materials n' (alloc k n w) =
     live_materials n' w @
       (if k = StandardMaterial \<and> n = n' \<and> length (heap w) \<notin> set (disposed w)
        then [length (heap w)] else [])"
  by (auto simp: live_materials_def alloc_def nth_append intro: filter_cong)

lemma live_materials_dispose:
  "live_materials n (dispose m w) = removeAll m (live_materials n w)"
  by (auto simp: live_materials_def dispose_def removeAll_filter_not_eq intro: filter_cong)

lemma live_materials_boxGeometry:
  "live_materials n (w\<lparr>boxGeometry := g\<rparr>) = live_materials n w"
  by (simp add: live_materials_def)

lemma geometries_alloc:
  "geometries (alloc k n w) =
     geometries w @ (if k = BoxGeometry then [length (heap w)] else [])"
  by (auto simp: geometries_def alloc_def nth_append intro: filter_cong)

lemma geometries_dispose: "geometries (dispose m w) = geometries w"
  by (simp add: geometries_def dispose_def)

lemma geometries_boxGeometry: "geometries (w\<lparr>boxGeometry := g\<rparr>) = geometries w"
  by (simp add: geometries_def)

lemma in_live_materials:
  "i \<in> set (live_materials n w) \<longleftrightarrow>
     i < length (heap w) \<and> heap w ! i = (StandardMaterial, n) \<and> i \<notin> set (disposed w)"
  by (auto simp: live_materials_def)

lemma in_geometries:
  "i \<in> set (geometries w) \<longleftrightarrow> i < length (heap w) \<and> fst (heap w ! i) = BoxGeometry"
  by (auto simp: geometries_def)

lemmas obs = alloc_fields dispose_fields live_materials_alloc live_materials_dispose
  live_materials_boxGeometry geometries_alloc geometries_dispose geometries_boxGeometry

lemma useMemo_material:
  "useMemo (createStandardMaterial n p) (material_deps p) (material_memo h) w =
     (mat_value h p w, Some (material_deps p, mat_value h p w), mat_step n h p w)"
  by (simp add: useMemo_def createStandardMaterial_def new_object_def mat_value_def
      mat_step_def mat_changed_def split: option.splits)

lemma useMemo_shadow:
  "useMemo (shadow_factory n (shadowOpacity p)) (shadowOpacity p) (shadow_memo h) w =
     (shadow_value h p w, Some (shadowOpacity p, shadow_value h p w), shadow_step n h p w)"
  by (simp add: useMemo_def shadow_factory_def new_object_def shadow_value_def
      shadow_step_def shadow_changed_def split: option.splits)

lemma geo_step_eq:
  "(case boxGeometry w of
      None \<Rightarrow> (let (g, w') = new_object BoxGeometry n w in w'\<lparr>boxGeometry := Some g\<rparr>)
    | Some g \<Rightarrow> w) = geo_step n w"
  by (simp add: geo_step_def new_object_def split: option.splits)

lemma BoxMesh_eq:
  "BoxMesh n p (h, w) =
     (let w1 = mat_step n h p w; w2 = geo_step n w1; w3 = shadow_step n h p w2;
          sv = shadow_value h p w2
      in (\<lparr>view_geometry = boxGeometry w3,
           view_material = mat_value h p w,
           view_castShadow = cast_shadow p,
           view_receiveShadow = (receive_shadow p = RSBool True),
           view_shadow_mesh =
             (if sv \<noteq> None \<and> gt_zero (shadowOpacity p) then Some (boxGeometry w3, sv) else None)\<rparr>,
          h\<lparr>material_memo := Some (material_deps p, mat_value h p w),
            shadow_memo := Some (shadowOpacity p, sv)\<rparr>,
          w3))"
  by (simp add: BoxMesh_def useMemo_material geo_step_eq useMemo_shadow Let_def)

lemma pass_world:
  "snd (snd (pass n p (h, w))) =
     commit_step h (mat_value h p w) (shadow_step n h p (geo_step n (mat_step n h p w)))"
  by (simp add: pass_def BoxMesh_eq commit_effects_def commit_step_def Let_def
      split: option.splits)

lemma pass_hooks:
  "fst (snd (pass n p (h, w))) =
     \<lparr>material_memo = Some (material_deps p, mat_value h p w),
      material_effect = Some (mat_value h p w),
      shadow_memo = Some (shadowOpacity p,
        shadow_value h p (geo_step n (mat_step n h p w)))\<rparr>"
  by (simp add: pass_def BoxMesh_eq commit_effects_def Let_def split: option.splits)


subsection \<open>The stages of a pass\<close>

lemma heap_grows_refl: "heap_grows w w"
  by (simp add: heap_grows_def)

lemma heap_grows_trans: "heap_grows w w' \<Longrightarrow> heap_grows w' w'' \<Longrightarrow> heap_grows w w''"
  by (auto simp: heap_grows_def)

lemma heap_grows_nth:
  "heap_grows w w' \<Longrightarrow> i < length (heap w) \<Longrightarrow> heap w' ! i = heap w ! i"
  by (auto simp: heap_grows_def nth_append)

lemma heap_grows_length: "heap_grows w w' \<Longrightarrow> length (heap w) \<le> length (heap w')"
  by (auto simp: heap_grows_def)

lemma heap_grows_alloc: "heap_grows w (alloc k n w)"
  by (simp add: heap_grows_def alloc_fields)

lemma heap_grows_dispose: "heap_grows w w' \<Longrightarrow> heap_grows w (dispose m w')"
  by (simp add: heap_grows_def dispose_fields)

lemma geo_step_obs:
  "disposed (geo_step n w) = disposed w"
  "live_materials n' (geo_step n w) = live_materials n' w"
  "heap_grows w (geo_step n w)"
  by (simp_all add: geo_step_def obs heap_grows_def split: option.splits)

lemma geo_step_geometries:
  assumes "geometries w = (case boxGeometry w of None \<Rightarrow> [] | Some g \<Rightarrow> [g])"
  shows "geometries (geo_step n w) =
           (case boxGeometry (geo_step n w) of None \<Rightarrow> [] | Some g \<Rightarrow> [g])"
  using assms by (simp add: geo_step_def obs split: option.splits)

lemma shadow_step_obs:
  "disposed (shadow_step n h p w) = disposed w"
  "live_materials n' (shadow_step n h p w) = live_materials n' w"
  "geometries (shadow_step n h p w) = geometries w"
  "boxGeometry (shadow_step n h p w) = boxGeometry w"
  "heap_grows w (shadow_step n h p w)"
  by (simp_all add: shadow_step_def obs heap_grows_def)

lemma rest_step_obs:
  "disposed (rest_step n h p w) = disposed w"
  "live_materials n' (rest_step n h p w) = live_materials n' w"
  "heap_grows w (rest_step n h p w)"
  by (simp_all add: rest_step_def shadow_step_obs(1,2) geo_step_obs(1,2)
      heap_grows_trans[OF geo_step_obs(3) shadow_step_obs(5)])

lemma rest_step_geometries:
  assumes "geometries w = (case boxGeometry w of None \<Rightarrow> [] | Some g \<Rightarrow> [g])"
  shows "geometries (rest_step n h p w) =
           (case boxGeometry (rest_step n h p w) of None \<Rightarrow> [] | Some g \<Rightarrow> [g])"
  using geo_step_geometries[OF assms] by (simp add: rest_step_def shadow_step_obs)

subsection \<open>The world after a pass, by cases\<close>

lemma pass_world_unmounted:
  "snd (snd (pass n p (fresh_hooks, w))) =
     rest_step n fresh_hooks p (alloc StandardMaterial n w)"
  by (simp add: pass_world rest_step_def mat_step_def mat_changed_def commit_step_def
      fresh_hooks_def)

lemma pass_world_same:
  assumes "material_memo h = Some (material_deps p, Some m)"
    "material_effect h = Some (Some m)"
  shows "snd (snd (pass n p (h, w))) = rest_step n h p w"
  using assms
  by (simp add: pass_world rest_step_def mat_step_def mat_changed_def commit_step_def
      mat_value_def)

lemma pass_world_changed:
  assumes "material_memo h = Some (d, Some m)" "d \<noteq> material_deps p"
    "material_effect h = Some (Some m)" "m < length (heap w)"
  shows "snd (snd (pass n p (h, w))) =
           dispose m (rest_step n h p (alloc StandardMaterial n w))"
  using assms
  by (simp add: pass_world rest_step_def mat_step_def mat_changed_def commit_step_def
      mat_value_def material_cleanup_def)

lemma pass_heap_grows: "heap_grows w (snd (snd (pass n p (h, w))))"
proof -
  have "heap_grows w (mat_step n h p w)"
    by (simp add: mat_step_def heap_grows_alloc heap_grows_refl)
  then have "heap_grows w (rest_step n h p (mat_step n h p w))"
    using rest_step_obs(3) heap_grows_trans by blast
  then show ?thesis
    by (simp add: pass_world commit_step_def material_cleanup_def heap_grows_dispose
        rest_step_def split: option.splits)
qed

lemma shadow_ok_mono:
  assumes "shadow_ok w n h" "heap_grows w w'"
  shows "shadow_ok w' n h"
proof -
  from assms(1) obtain x v where xv: "shadow_memo h = Some (x, v)"
      "v = None \<longleftrightarrow> strict_eq_zero x"
      "\<forall>k. v = Some k \<longrightarrow> k < length (heap w) \<and> heap w ! k = (ShadowMaterial x, n)"
    unfolding shadow_ok_def by blast
  have "\<forall>k. v = Some k \<longrightarrow> k < length (heap w') \<and> heap w' ! k = (ShadowMaterial x, n)"
  proof (intro allI impI)
    fix k assume "v = Some k"
    with xv(3) have k: "k < length (heap w)" "heap w ! k = (ShadowMaterial x, n)" by simp_all
    from k(1) heap_grows_length[OF assms(2)] have "k < length (heap w')" by simp
    moreover from heap_grows_nth[OF assms(2) k(1)] k(2)
    have "heap w' ! k = (ShadowMaterial x, n)" by simp
    ultimately show "k < length (heap w') \<and> heap w' ! k = (ShadowMaterial x, n)" by simp
  qed
  with xv(1,2) show ?thesis unfolding shadow_ok_def by blast
qed


lemma init_inv: "scene_inv init_scene"
  by (simp add: scene_inv_def init_scene_def world_ok_def live_materials_def geometries_def
      current_material_def)

lemma hooks_cases:
  assumes "scene_inv s"
  obtains (unmounted) "instances s n = None" "hooks_of s n = fresh_hooks"
      "live_materials n (the_world s) = []"
    | (mounted) h d m where "instances s n = Some h" "hooks_of s n = h"
      "material_memo h = Some (d, Some m)" "material_effect h = Some (Some m)"
      "live_materials n (the_world s) = [m]" "shadow_ok (the_world s) n h"
proof (cases "instances s n")
  case None
  with assms have "live_materials n (the_world s) = []"
    by (simp add: scene_inv_def current_material_def)
  with None show ?thesis by (intro unmounted) (simp_all add: hooks_of_def)
next
  case (Some h)
  with assms have "material_ok h" "shadow_ok (the_world s) n h"
    by (simp_all add: scene_inv_def)
  then obtain d m where dm: "material_memo h = Some (d, Some m)" "material_effect h = Some (Some m)"
    by (auto simp: material_ok_def)
  with assms Some have "live_materials n (the_world s) = [m]"
    by (simp add: scene_inv_def current_material_def)
  with Some dm \<open>shadow_ok (the_world s) n h\<close> show ?thesis
    by (intro mounted[of h d m]) (simp_all add: hooks_of_def)
qed

lemma live_singleton:
  assumes "live_materials n w = [m]"
  shows "m < length (heap w)" "heap w ! m = (StandardMaterial, n)" "m \<notin> set (disposed w)"
proof -
  have "m \<in> set (live_materials n w)" using assms by simp
  then show "m < length (heap w)" "heap w ! m = (StandardMaterial, n)" "m \<notin> set (disposed w)"
    by (simp_all add: in_live_materials)
qed

lemma world_ok_fresh: "world_ok w \<Longrightarrow> length (heap w) \<notin> set (disposed w)"
  by (auto simp: world_ok_def)

lemma world_ok_pass_shape:
  assumes "world_ok w" "pass_shape n old w w'"
    "\<And>m. old = Some m \<Longrightarrow> m < length (heap w) \<and> heap w ! m = (StandardMaterial, n) \<and>
       m \<notin> set (disposed w)"
  shows "world_ok w'"
proof -
  from assms(2) have g: "heap_grows w w'" by (simp add: pass_shape_def)
  have bound: "i < length (heap w') \<and> fst (heap w' ! i) = StandardMaterial"
    if "i < length (heap w) \<and> fst (heap w ! i) = StandardMaterial" for i
    using that heap_grows_length[OF g] heap_grows_nth[OF g, of i] by simp
  have old_bound: "\<forall>i \<in> set (disposed w). i < length (heap w') \<and> fst (heap w' ! i) = StandardMaterial"
    using assms(1) bound by (simp add: world_ok_def)
  have geo: "geometries w' = (case boxGeometry w' of None \<Rightarrow> [] | Some g \<Rightarrow> [g])"
    using assms(1,2) by (simp add: world_ok_def pass_shape_def)
  consider (same) "disposed w' = disposed w"
    | (disp) m where "old = Some m" "disposed w' = m # disposed w"
    using assms(2) by (auto simp: pass_shape_def split: option.splits)
  then show ?thesis
  proof cases
    case same
    with assms(1) old_bound geo show ?thesis by (simp add: world_ok_def)
  next
    case disp
    from assms(3)[OF disp(1)] have m: "m < length (heap w)" "heap w ! m = (StandardMaterial, n)"
      "m \<notin> set (disposed w)" by simp_all
    from bound[of m] m have "m < length (heap w') \<and> fst (heap w' ! m) = StandardMaterial" by simp
    with disp assms(1) old_bound geo m(3) show ?thesis by (simp add: world_ok_def)
  qed
qed


declare step.simps [simp del]

lemma shadow_after:
  assumes old: "shadow_memo h = None \<or> shadow_ok w0 n h"
    and g02: "heap_grows w0 w2"
    and memo: "shadow_memo h' = Some (shadowOpacity p, shadow_value h p w2)"
    and g3: "heap_grows (shadow_step n h p w2) w'"
  shows "shadow_ok w' n h'"
proof (cases "shadow_changed h p")
  case True
  show ?thesis
  proof (cases "strict_eq_zero (shadowOpacity p)")
    case zero: True
    with True memo show ?thesis by (simp add: shadow_ok_def shadow_value_def)
  next
    case nz: False
    let ?w3 = "shadow_step n h p w2"
    have w3: "?w3 = alloc (ShadowMaterial (shadowOpacity p)) n w2"
      using True nz by (simp add: shadow_step_def)
    have "length (heap w2) < length (heap ?w3)"
      "heap ?w3 ! length (heap w2) = (ShadowMaterial (shadowOpacity p), n)"
      by (simp_all add: w3 alloc_fields)
    with heap_grows_length[OF g3] heap_grows_nth[OF g3, of "length (heap w2)"]
    have "length (heap w2) < length (heap w')"
      "heap w' ! length (heap w2) = (ShadowMaterial (shadowOpacity p), n)"
      by simp_all
    with True nz memo show ?thesis by (simp add: shadow_ok_def shadow_value_def)
  qed
next
  case False
  then obtain v where v: "shadow_memo h = Some (shadowOpacity p, v)"
    by (auto simp: shadow_changed_def split: option.splits)
  with old have ok: "shadow_ok w0 n h" by simp
  have val: "shadow_value h p w2 = v"
    using False v by (simp add: shadow_value_def)
  have "heap_grows w0 w'"
    using g02 shadow_step_obs(5)[of w2 n h p] g3 heap_grows_trans by blast
  from shadow_ok_mono[OF ok this] v memo val show ?thesis
    by (simp add: shadow_ok_def)
qed

lemma step_Render:
  "step s (Render n p) =
     \<lparr>instances = (instances s)(n := Some (fst (snd (pass n p (hooks_of s n, the_world s))))),
      the_world = snd (snd (pass n p (hooks_of s n, the_world s)))\<rparr>"
  by (simp add: step.simps split_beta)

lemma current_material_other:
  "n' \<noteq> n \<Longrightarrow> current_material \<lparr>instances = (instances s)(n := x), the_world = w\<rparr> n' =
     current_material s n'"
  by (simp add: current_material_def)

lemma current_material_Render:
  "current_material (step s (Render n p)) n =
     (case mat_value (hooks_of s n) p (the_world s) of Some m \<Rightarrow> [m] | None \<Rightarrow> [])"
  unfolding step_Render
  by (simp add: pass_hooks current_material_def split: option.splits)

lemma render_inv:
  assumes inv: "scene_inv s"
  shows "scene_inv (step s (Render n p))"
proof -
  let ?w = "the_world s" and ?h = "hooks_of s n"
  let ?w' = "snd (snd (pass n p (?h, ?w)))" and ?h' = "fst (snd (pass n p (?h, ?w)))"
  let ?s' = "step s (Render n p)"
  let ?L = "length (heap ?w)"
  from inv have wok: "world_ok ?w" by (simp add: scene_inv_def)
  have geo: "geometries ?w = (case boxGeometry ?w of None \<Rightarrow> [] | Some g \<Rightarrow> [g])"
    using wok by (simp add: world_ok_def)
  have fresh: "?L \<notin> set (disposed ?w)" by (rule world_ok_fresh[OF wok])
  have grows: "heap_grows ?w ?w'" by (rule pass_heap_grows)
  have world': "the_world ?s' = ?w'" unfolding step_Render by simp
  have inst_n: "instances ?s' n = Some ?h'" unfolding step_Render by simp
  have inst_other: "instances ?s' n' = instances s n'" if "n' \<noteq> n" for n'
    unfolding step_Render using that by simp
  have cur_other: "current_material ?s' n' = current_material s n'" if "n' \<noteq> n" for n'
    unfolding step_Render using that by (rule current_material_other)
  have live_inv: "live_materials n' ?w = current_material s n'" for n'
    using inv by (simp add: scene_inv_def)
  have geo_alloc: "geometries (alloc StandardMaterial n ?w) =
      (case boxGeometry (alloc StandardMaterial n ?w) of None \<Rightarrow> [] | Some g \<Rightarrow> [g])"
    using geo by (simp add: obs)
  \<comment> \<open>the world and the live materials, in the three shapes of a pass\<close>
  have main: "world_ok ?w' \<and> (\<forall>n'. live_materials n' ?w' = current_material ?s' n') \<and>
      (shadow_memo ?h = None \<or> shadow_ok ?w n ?h)"
    using inv
  proof (cases rule: hooks_cases[where n = n])
    case unmounted
    have w': "?w' = rest_step n fresh_hooks p (alloc StandardMaterial n ?w)"
      by (simp add: unmounted(2) pass_world_unmounted)
    have ps: "pass_shape n None ?w ?w'"
      using grows rest_step_geometries[OF geo_alloc, of n fresh_hooks p]
      by (simp add: pass_shape_def w' rest_step_obs obs)
    have 1: "world_ok ?w'" by (rule world_ok_pass_shape[OF wok ps]) simp
    have live: "live_materials n' ?w' = live_materials n' ?w @ (if n = n' then [?L] else [])" for n'
      using fresh by (simp add: w' rest_step_obs obs)
    have cur: "current_material ?s' n = [?L]"
      by (simp add: current_material_Render unmounted(2) mat_value_def fresh_hooks_def)
    have 2: "live_materials n' ?w' = current_material ?s' n'" for n'
    proof (cases "n' = n")
      case True
      with live[of n] unmounted(3) cur show ?thesis by simp
    next
      case False
      with live[of n'] cur_other[OF False] live_inv[of n'] show ?thesis by simp
    qed
    from 1 2 unmounted(2) show ?thesis by (simp add: fresh_hooks_def)
  next
    case (mounted h d m)
    note m = live_singleton[OF mounted(5)]
    show ?thesis
    proof (cases "d = material_deps p")
      case True
      have w': "?w' = rest_step n h p ?w"
        using mounted(3,4) True by (simp add: mounted(2) pass_world_same)
      have ps: "pass_shape n None ?w ?w'"
        using grows rest_step_geometries[OF geo, of n h p]
        by (simp add: pass_shape_def w' rest_step_obs)
      have 1: "world_ok ?w'" by (rule world_ok_pass_shape[OF wok ps]) simp
      have cur: "current_material ?s' n = [m]"
        using mounted(3) True by (simp add: current_material_Render mounted(2) mat_value_def)
      have 2: "live_materials n' ?w' = current_material ?s' n'" for n'
      proof (cases "n' = n")
        case True
        with mounted(5) cur show ?thesis by (simp add: w' rest_step_obs)
      next
        case False
        with cur_other[OF False] live_inv[of n'] show ?thesis by (simp add: w' rest_step_obs)
      qed
      from 1 2 mounted(2,6) show ?thesis by simp
    next
      case False
      have w': "?w' = dispose m (rest_step n h p (alloc StandardMaterial n ?w))"
        using mounted(3,4) False m(1) by (simp add: mounted(2) pass_world_changed)
      have ps: "pass_shape n (Some m) ?w ?w'"
        using grows rest_step_geometries[OF geo_alloc, of n h p]
        by (simp add: pass_shape_def w' rest_step_obs obs)
      have 1: "world_ok ?w'" by (rule world_ok_pass_shape[OF wok ps]) (simp add: m)
      have live: "live_materials n' ?w' =
          removeAll m (live_materials n' ?w @ (if n = n' then [?L] else []))" for n'
        using fresh by (simp add: w' rest_step_obs obs)
      have cur: "current_material ?s' n = [?L]"
        using mounted(3) False by (simp add: current_material_Render mounted(2) mat_value_def)
      have 2: "live_materials n' ?w' = current_material ?s' n'" for n'
      proof (cases "n' = n")
        case True
        with live[of n] mounted(5) cur m(1) show ?thesis by simp
      next
        case other: False
        have "m \<notin> set (live_materials n' ?w)"
          using m(2) other by (simp add: in_live_materials)
        with live[of n'] other cur_other[OF other] live_inv[of n'] show ?thesis by simp
      qed
      from 1 2 mounted(2,6) show ?thesis by simp
    qed
  qed
  have hooks_n: "material_ok ?h' \<and> shadow_ok ?w' n ?h'"
  proof
    have "mat_value ?h p ?w \<noteq> None"
      using inv
      by (cases rule: hooks_cases[where n = n])
        (simp_all add: mat_value_def fresh_hooks_def)
    then show "material_ok ?h'" by (auto simp: pass_hooks material_ok_def)
  next
    let ?w2 = "geo_step n (mat_step n ?h p ?w)"
    have g02: "heap_grows ?w ?w2"
      using geo_step_obs(3)[of "mat_step n ?h p ?w" n]
      by (auto simp: mat_step_def intro: heap_grows_trans heap_grows_alloc)
    have memo: "shadow_memo ?h' = Some (shadowOpacity p, shadow_value ?h p ?w2)"
      by (simp add: pass_hooks)
    have g3: "heap_grows (shadow_step n ?h p ?w2) ?w'"
      by (simp add: pass_world commit_step_def material_cleanup_def heap_grows_dispose
          heap_grows_refl split: option.splits)
    from main have "shadow_memo ?h = None \<or> shadow_ok ?w n ?h" by simp
    from shadow_after[OF this g02 memo g3] show "shadow_ok ?w' n ?h'" .
  qed
  have hooks_all: "material_ok h' \<and> shadow_ok ?w' n' h'" if "instances ?s' n' = Some h'" for n' h'
  proof (cases "n' = n")
    case True
    with that inst_n hooks_n show ?thesis by simp
  next
    case False
    with that inst_other have "instances s n' = Some h'" by simp
    with inv have "material_ok h'" "shadow_ok ?w n' h'" by (simp_all add: scene_inv_def)
    with shadow_ok_mono[OF _ grows] show ?thesis by simp
  qed
  from main hooks_all show ?thesis
    unfolding scene_inv_def world' by blast
qed


lemma step_Unmount_None: "instances s n = None \<Longrightarrow> step s (Unmount n) = s"
  by (simp add: step.simps)

lemma step_Unmount_Some:
  "instances s n = Some h \<Longrightarrow>
     step s (Unmount n) =
       \<lparr>instances = (instances s)(n := None), the_world = unmount_cleanup h (the_world s)\<rparr>"
  by (simp add: step.simps)

lemma unmount_inv:
  assumes inv: "scene_inv s"
  shows "scene_inv (step s (Unmount n))"
  using inv
proof (cases rule: hooks_cases[where n = n])
  case unmounted
  with inv show ?thesis by (simp add: step_Unmount_None)
next
  case (mounted h d m)
  let ?w = "the_world s"
  let ?s' = "step s (Unmount n)"
  note m = live_singleton[OF mounted(5)]
  from inv have wok: "world_ok ?w" by (simp add: scene_inv_def)
  have s': "?s' = \<lparr>instances = (instances s)(n := None), the_world = dispose m ?w\<rparr>"
    using mounted(1,4)
    by (simp add: step_Unmount_Some unmount_cleanup_def material_cleanup_def)
  have grows: "heap_grows ?w (dispose m ?w)"
    by (simp add: heap_grows_dispose heap_grows_refl)
  have ps: "pass_shape n (Some m) ?w (dispose m ?w)"
    using grows by (simp add: pass_shape_def obs)
  have 1: "world_ok (dispose m ?w)"
    by (rule world_ok_pass_shape[OF wok ps]) (simp add: m)
  have 2: "live_materials n' (dispose m ?w) = current_material ?s' n'" for n'
  proof (cases "n' = n")
    case True
    with mounted(5) show ?thesis by (simp add: s' obs current_material_def)
  next
    case False
    have "m \<notin> set (live_materials n' ?w)"
      using m(2) False by (simp add: in_live_materials)
    moreover have "live_materials n' ?w = current_material s n'"
      using inv by (simp add: scene_inv_def)
    ultimately show ?thesis
      using False by (simp add: s' obs current_material_other)
  qed
  have 3: "material_ok h' \<and> shadow_ok (dispose m ?w) n' h'"
    if "instances ?s' n' = Some h'" for n' h'
  proof -
    from that have "instances s n' = Some h'"
      by (simp add: s' split: if_splits)
    with inv have "material_ok h'" "shadow_ok ?w n' h'" by (simp_all add: scene_inv_def)
    with shadow_ok_mono[OF _ grows] show ?thesis by simp
  qed
  have "the_world ?s' = dispose m ?w" by (simp add: s')
  with 1 2 3 show ?thesis unfolding scene_inv_def by metis
qed

lemma step_inv: "scene_inv s \<Longrightarrow> scene_inv (step s e)"
  by (cases e) (simp_all add: render_inv unmount_inv)

lemma run_Nil: "run s [] = s"
  by (simp add: run_def)

lemma run_Cons: "run s (e # evs) = run (step s e) evs"
  by (simp add: run_def)

lemma run_append: "run s (evs @ evs') = run (run s evs) evs'"
  by (simp add: run_def)

lemma run_snoc: "run s (evs @ [e]) = step (run s evs) e"
  by (simp add: run_def)

lemma run_inv: "scene_inv s \<Longrightarrow> scene_inv (run s evs)"
  by (induction evs arbitrary: s) (simp_all add: run_Nil run_Cons step_inv)

lemma reachable_inv: "scene_inv (run init_scene evs)"
  by (rule run_inv[OF init_inv])


subsection \<open>Facts for the statements below\<close>

lemma material_count_alloc:
  "material_count (alloc k n w) = material_count w + (if k = StandardMaterial then 1 else 0)"
  by (simp add: material_count_def alloc_fields)

lemma material_count_dispose: "material_count (dispose m w) = material_count w"
  by (simp add: material_count_def dispose_fields)

lemma material_count_boxGeometry:
  "material_count (w\<lparr>boxGeometry := g\<rparr>) = material_count w"
  by (simp add: material_count_def)

lemma material_count_rest: "material_count (rest_step n h p w) = material_count w"
  by (simp add: rest_step_def shadow_step_def geo_step_def material_count_alloc
      material_count_boxGeometry split: option.splits)

lemma cached_deps_mounted:
  assumes "instances s n = Some h" "material_memo h = Some (d, v)"
  shows "cached_deps s n = Some d"
  using assms by (simp add: cached_deps_def)

lemma world_step_Render:
  "the_world (step s (Render n p)) = snd (snd (pass n p (hooks_of s n, the_world s)))"
  by (simp add: step_Render)

lemma world_step_Unmount_Some:
  "instances s n = Some h \<Longrightarrow>
     the_world (step s (Unmount n)) = unmount_cleanup h (the_world s)"
  by (simp add: step_Unmount_Some)

lemma hooks_after_Render:
  "hooks_of (step s (Render n p)) n = fst (snd (pass n p (hooks_of s n, the_world s)))"
  by (simp add: step_Render hooks_of_def)

lemma view_material_eq:
  "view_material (render_view n p s) = mat_value (hooks_of s n) p (the_world s)"
  by (simp add: render_view_def pass_def BoxMesh_eq Let_def split_beta)

lemma commit_step_boxGeometry: "boxGeometry (commit_step h mat w) = boxGeometry w"
  by (simp add: commit_step_def material_cleanup_def dispose_fields split: option.splits)

lemma mat_step_boxGeometry: "boxGeometry (mat_step n h p w) = boxGeometry w"
  by (simp add: mat_step_def alloc_fields)

lemma geo_step_boxGeometry:
  "boxGeometry (geo_step n w) =
     (case boxGeometry w of None \<Rightarrow> Some (length (heap w)) | Some g \<Rightarrow> Some g)"
  by (simp add: geo_step_def split: option.splits)

lemma pass_boxGeometry:
  "boxGeometry (snd (snd (pass n p (h, w)))) =
     (case boxGeometry w of
        None \<Rightarrow> Some (length (heap (mat_step n h p w)))
      | Some g \<Rightarrow> Some g)"
  by (simp add: pass_world commit_step_boxGeometry shadow_step_obs geo_step_boxGeometry
      mat_step_boxGeometry)

lemma step_boxGeometry_Render: "boxGeometry (the_world (step s (Render n p))) \<noteq> None"
  by (simp add: world_step_Render pass_boxGeometry split: option.splits)

lemma step_boxGeometry_Unmount:
  "boxGeometry (the_world (step s (Unmount n))) = boxGeometry (the_world s)"
  by (cases "instances s n")
    (simp_all add: step_Unmount_None step_Unmount_Some unmount_cleanup_def
      material_cleanup_def dispose_fields split: option.splits)

lemma step_boxGeometry_persists:
  "boxGeometry (the_world s) = Some g \<Longrightarrow> boxGeometry (the_world (step s e)) = Some g"
  by (cases e) (simp_all add: world_step_Render pass_boxGeometry step_boxGeometry_Unmount)

lemma run_boxGeometry_persists:
  "boxGeometry (the_world s) = Some g \<Longrightarrow> boxGeometry (the_world (run s evs)) = Some g"
  by (induction evs arbitrary: s) (simp_all add: run_Nil run_Cons step_boxGeometry_persists)

lemma run_boxGeometry_None:
  "boxGeometry (the_world (run s evs)) = None \<longleftrightarrow>
     boxGeometry (the_world s) = None \<and> \<not> list_ex is_Render evs"
proof (induction evs arbitrary: s)
  case Nil
  show ?case by (simp add: run_Nil)
next
  case (Cons e evs)
  show ?case
  proof (cases e)
    case (Render n p)
    then show ?thesis
      using step_boxGeometry_Render[of s n p]
      by (simp add: run_Cons Cons.IH is_Render_def)
  next
    case (Unmount n)
    then show ?thesis
      by (simp add: run_Cons Cons.IH is_Render_def step_boxGeometry_Unmount)
  qed
qed

lemma view_geometry_eq:
  "view_geometry (render_view n p s) = boxGeometry (the_world (step s (Render n p)))"
  by (simp add: render_view_def world_step_Render pass_def BoxMesh_eq Let_def split_beta
      commit_effects_def material_cleanup_def dispose_fields split: option.splits)

lemma geometry_not_disposed:
  assumes "world_ok w" "g \<in> set (geometries w)"
  shows "g \<notin> set (disposed w)"
proof
  assume "g \<in> set (disposed w)"
  with assms(1) have "fst (heap w ! g) = StandardMaterial" by (simp add: world_ok_def)
  moreover from assms(2) have "fst (heap w ! g) = BoxGeometry" by (simp add: in_geometries)
  ultimately show False by simp
qed

lemma gt_zero_not_zero: "gt_zero x \<Longrightarrow> \<not> strict_eq_zero x"
  by (cases x) simp_all

lemma view_shadow_mesh_eq:
  "view_shadow_mesh (render_view n p s) =
     (let h = hooks_of s n; w2 = geo_step n (mat_step n h p (the_world s));
          sv = shadow_value h p w2
      in if sv \<noteq> None \<and> gt_zero (shadowOpacity p)
         then Some (boxGeometry (the_world (step s (Render n p))), sv) else None)"
  by (simp add: render_view_def world_step_Render pass_def BoxMesh_eq Let_def split_beta
      commit_effects_def material_cleanup_def dispose_fields split: option.splits)

lemma view_receiveShadow_eq:
  "view_receiveShadow (render_view n p s) = (receive_shadow p = RSBool True)"
  by (simp add: render_view_def pass_def BoxMesh_eq Let_def split_beta)

lemma material_memo_next:
  "let s0 = run init_scene evs;
       s1 = step s0 (Render n p);
       s2 = step s1 (Render n p')
   in (material_deps p' = material_deps p \<longrightarrow>
         view_material (render_view n p' s1) = view_material (render_view n p s0) \<and>
         material_count (the_world s2) = material_count (the_world s1)) \<and>
      (material_deps p' \<noteq> material_deps p \<longrightarrow>
         view_material (render_view n p' s1) = Some (length (heap (the_world s1))) \<and>
         view_material (render_view n p' s1) \<noteq> view_material (render_view n p s0) \<and>
         material_count (the_world s2) = Suc (material_count (the_world s1)))"
proof -
  let ?s0 = "run init_scene evs"
  let ?s1 = "step ?s0 (Render n p)"
  let ?h1 = "hooks_of ?s1 n" and ?w1 = "the_world ?s1"
  let ?m = "mat_value (hooks_of ?s0 n) p (the_world ?s0)"
  have inv1: "scene_inv ?s1" by (simp add: step_inv reachable_inv)
  have memo: "material_memo ?h1 = Some (material_deps p, ?m)"
    and eff: "material_effect ?h1 = Some ?m"
    by (simp_all add: hooks_after_Render pass_hooks)
  have inst: "instances ?s1 n = Some ?h1"
    by (simp add: step_Render hooks_of_def)
  from inv1 inst have "material_ok ?h1"
    unfolding scene_inv_def by blast
  with memo obtain m where m: "?m = Some m" by (auto simp: material_ok_def)
  have "live_materials n ?w1 = current_material ?s1 n"
    using inv1 by (simp add: scene_inv_def)
  then have "live_materials n ?w1 = [m]"
    by (simp add: current_material_Render m)
  note m1 = live_singleton[OF this]
  have same: "view_material (render_view n p' ?s1) = view_material (render_view n p ?s0) \<and>
      material_count (the_world (step ?s1 (Render n p'))) = material_count ?w1"
    if "material_deps p' = material_deps p"
    using that memo eff m
    by (simp add: view_material_eq world_step_Render pass_world_same material_count_rest
        mat_value_def[of ?h1])
  have diff: "view_material (render_view n p' ?s1) = Some (length (heap ?w1)) \<and>
      view_material (render_view n p' ?s1) \<noteq> view_material (render_view n p ?s0) \<and>
      material_count (the_world (step ?s1 (Render n p'))) = Suc (material_count ?w1)"
    if "material_deps p' \<noteq> material_deps p"
    using that memo eff m m1(1)
    by (simp add: view_material_eq world_step_Render
        pass_world_changed[where d = "material_deps p" and m = m]
        material_count_rest material_count_dispose material_count_alloc mat_value_def[of ?h1])
  from same diff show ?thesis unfolding Let_def by blast
qed

lemmas eval_scene = run_Cons run_Nil step_Render step.simps hooks_of_def init_scene_def
  pass_world pass_hooks mat_step_def mat_changed_def mat_value_def geo_step_def
  shadow_step_def shadow_changed_def shadow_value_def commit_step_def material_cleanup_def
  unmount_cleanup_def alloc_def dispose_def fresh_hooks_def example_box_def
  material_deps_def shadowOpacity_def

section \<open>Properties of the environment store\<close>

lemma useEnvironmentState_first:
  "useEnvironmentState None sh = (length sh, Some (length sh), sh @ [initial_environment])"
  by (simp add: useEnvironmentState_def create_def)

lemma useEnvironmentState_again:
  "useEnvironmentState (Some st) sh = (st, Some st, sh)"
  by (simp add: useEnvironmentState_def)

lemma getState_setState:
  "getState b (setState a f sh) = (if a = b \<and> a < length sh then f (sh ! a) else getState b sh)"
proof (cases "a = b")
  case True
  then show ?thesis
    by (cases "a < length sh") (simp_all add: getState_def setState_def list_update_beyond)
next
  case False
  then show ?thesis by (simp add: getState_def setState_def)
qed

lemma getState_append:
  "getState i (sh @ xs) = (if i < length sh then getState i sh else xs ! (i - length sh))"
  by (simp add: getState_def nth_append)

lemma length_setState: "length (setState a f sh) = length sh"
  by (simp add: setState_def)

section \<open>Properties of the hover state\<close>

lemma hv_range: "0 \<le> hv nd" "hv nd \<le> 1"
  by (simp_all add: hv_def)

lemma hovered_nodes_Nil: "hovered_nodes [] = 0"
  by (simp add: hovered_nodes_def)

lemma hovered_nodes_Cons: "hovered_nodes (nd # nds) = hv nd + hovered_nodes nds"
  by (simp add: hovered_nodes_def hv_def)

lemma hovered_nodes_nonneg: "0 \<le> hovered_nodes nds"
  by (simp add: hovered_nodes_def)

lemma hovered_nodes_update:
  "i < length nds \<Longrightarrow> hovered_nodes (nds[i := nd]) = hovered_nodes nds - hv (nds ! i) + hv nd"
proof (induction nds arbitrary: i)
  case Nil
  then show ?case by simp
next
  case (Cons a nds)
  then show ?case by (cases i) (simp_all add: hovered_nodes_Cons)
qed

lemma hv_le_hovered_nodes: "i < length nds \<Longrightarrow> hv (nds ! i) \<le> hovered_nodes nds"
proof (induction nds arbitrary: i)
  case Nil
  then show ?case by simp
next
  case (Cons a nds)
  show ?case
  proof (cases i)
    case 0
    then show ?thesis using hovered_nodes_nonneg[of nds] by (simp add: hovered_nodes_Cons)
  next
    case (Suc j)
    with Cons.prems have "j < length nds" by simp
    from Cons.IH[OF this] Suc hv_range(1)[of a] show ?thesis
      by (simp add: hovered_nodes_Cons)
  qed
qed

subsection \<open>Every operation on a node keeps the counter in step with the flag\<close>

lemma hover_op_frame_hover_check: "hover_op frame_hover_check"
  by (auto simp: hover_op_def frame_hover_check_def hv_def cursor_ok_def)

lemma hover_op_clickable_hover_check: "hover_op clickable_hover_check"
  by (auto simp: hover_op_def clickable_hover_check_def hv_def cursor_ok_def)

lemma hover_op_pointer_over: "hover_op pointer_over"
  by (auto simp: hover_op_def pointer_over_def hv_def cursor_ok_def)

lemma hover_op_pointer_out: "hover_op pointer_out"
  by (auto simp: hover_op_def pointer_out_def hv_def cursor_ok_def)

lemma hover_op_set_visible: "hover_op (\<lambda>nd cc. (nd\<lparr>effectiveVisibility := b\<rparr>, cc))"
  by (simp add: hover_op_def hv_def)

lemma hover_op_set_clickable: "hover_op (\<lambda>nd cc. (nd\<lparr>clickable := b\<rparr>, cc))"
  by (simp add: hover_op_def hv_def)

lemma hover_opD:
  assumes "hover_op f" "f nd (cnt, cur) = (nd', cnt', cur')"
  shows "cnt' - hv nd' = cnt - hv nd"
    and "cursor_ok cnt cur \<Longrightarrow> hv nd \<le> cnt \<Longrightarrow> cursor_ok cnt' cur'"
  using assms by (auto simp: hover_op_def split: prod.splits)

lemma hover_op_node_tick: "hover_op node_tick"
  unfolding hover_op_def
proof (intro allI)
  fix nd cnt cur
  obtain nd1 cnt1 cur1 where 1: "clickable_hover_check nd (cnt, cur) = (nd1, cnt1, cur1)"
    by (metis prod_cases3)
  obtain nd2 cnt2 cur2 where 2: "frame_hover_check nd1 (cnt1, cur1) = (nd2, cnt2, cur2)"
    by (metis prod_cases3)
  have nt: "node_tick nd (cnt, cur) = (nd2, cnt2, cur2)"
    by (simp add: node_tick_def 1 2)
  note a = hover_opD[OF hover_op_clickable_hover_check 1]
  note b = hover_opD[OF hover_op_frame_hover_check 2]
  have "cnt2 - hv nd2 = cnt - hv nd" using a(1) b(1) by simp
  moreover have "cursor_ok cnt2 cur2" if "cursor_ok cnt cur" "hv nd \<le> cnt"
  proof -
    from a(2)[OF that] have "cursor_ok cnt1 cur1" .
    moreover have "hv nd1 \<le> cnt1" using a(1) that(2) by simp
    ultimately show ?thesis by (rule b(2))
  qed
  ultimately show "case node_tick nd (cnt, cur) of
      (nd', cnt', cur') \<Rightarrow> cnt' - hv nd' = cnt - hv nd \<and>
        (cursor_ok cnt cur \<and> hv nd \<le> cnt \<longrightarrow> cursor_ok cnt' cur')"
    by (simp add: nt)
qed

lemma on_node_inv:
  assumes "hover_op f" "viewer_inv v"
  shows "viewer_inv (on_node i f v)"
proof (cases "i < length (nodes v)")
  case False
  with assms(2) show ?thesis by (simp add: on_node_def)
next
  case True
  let ?cnt = "hoveredElementsCount v"
  obtain nd' cnt' cur' where f: "f (nodes v ! i) (?cnt, cursor v) = (nd', cnt', cur')"
    by (metis prod_cases3)
  have v': "on_node i f v =
      \<lparr>nodes = (nodes v)[i := nd'], hoveredElementsCount = cnt', cursor = cur'\<rparr>"
    using True by (simp add: on_node_def f)
  from assms(2) have cnt: "?cnt = hovered_nodes (nodes v)" and ok: "cursor_ok ?cnt (cursor v)"
    unfolding viewer_inv_def by blast+
  have le: "hv (nodes v ! i) \<le> ?cnt"
    using hv_le_hovered_nodes[OF True] cnt by simp
  note d = hover_opD[OF assms(1) f]
  have "cnt' = hovered_nodes ((nodes v)[i := nd'])"
    using d(1) cnt by (simp add: hovered_nodes_update[OF True])
  moreover have "cursor_ok cnt' cur'" by (rule d(2)[OF ok le])
  ultimately show ?thesis by (simp add: v' viewer_inv_def)
qed

lemma tick_nodes_inv_aux:
  "tick_nodes nds (cnt, cur) = (nds', cnt', cur') \<Longrightarrow>
     cnt' - hovered_nodes nds' = cnt - hovered_nodes nds \<and>
     (cursor_ok cnt cur \<and> hovered_nodes nds \<le> cnt \<longrightarrow> cursor_ok cnt' cur')"
proof (induction nds arbitrary: cnt cur nds' cnt' cur')
  case Nil
  then show ?case by simp
next
  case (Cons nd nds)
  obtain nd1 cnt1 cur1 where n1: "node_tick nd (cnt, cur) = (nd1, cnt1, cur1)"
    by (metis prod_cases3)
  obtain nds2 cnt2 cur2 where n2: "tick_nodes nds (cnt1, cur1) = (nds2, cnt2, cur2)"
    by (metis prod_cases3)
  note a = hover_opD[OF hover_op_node_tick n1]
  note ih = Cons.IH[OF n2]
  from Cons.prems have eq: "nds' = nd1 # nds2" "cnt' = cnt2" "cur' = cur2"
    by (simp_all add: n1 n2)
  have delta: "cnt' - hovered_nodes nds' = cnt - hovered_nodes (nd # nds)"
    using ih a(1) by (simp add: eq hovered_nodes_Cons)
  have "cursor_ok cnt' cur'" if ok: "cursor_ok cnt cur" and le: "hovered_nodes (nd # nds) \<le> cnt"
  proof -
    have le0: "hv nd \<le> cnt"
      using le hovered_nodes_nonneg[of nds] by (simp add: hovered_nodes_Cons)
    have ok1: "cursor_ok cnt1 cur1" by (rule a(2)[OF ok le0])
    have "hovered_nodes nds \<le> cnt1"
      using a(1) le hv_range(1)[of nd1] by (simp add: hovered_nodes_Cons)
    with ih ok1 show ?thesis by (simp add: eq)
  qed
  with delta show ?case by blast
qed

lemma tick_nodes_inv:
  assumes "tick_nodes nds (cnt, cur) = (nds', cnt', cur')"
  shows "cnt' - hovered_nodes nds' = cnt - hovered_nodes nds"
    and "cursor_ok cnt cur \<Longrightarrow> hovered_nodes nds \<le> cnt \<Longrightarrow> cursor_ok cnt' cur'"
  using tick_nodes_inv_aux[OF assms] by blast+

lemma frame_tick_inv:
  assumes "viewer_inv v"
  shows "viewer_inv (frame_tick v)"
proof -
  obtain nds' cnt' cur' where
    t: "tick_nodes (nodes v) (hoveredElementsCount v, cursor v) = (nds', cnt', cur')"
    by (metis prod_cases3)
  from assms have cnt: "hoveredElementsCount v = hovered_nodes (nodes v)"
    and ok: "cursor_ok (hoveredElementsCount v) (cursor v)"
    unfolding viewer_inv_def by blast+
  from tick_nodes_inv(1)[OF t] cnt have "cnt' = hovered_nodes nds'" by simp
  moreover from tick_nodes_inv(2)[OF t ok] cnt have "cursor_ok cnt' cur'" by simp
  ultimately show ?thesis by (simp add: frame_tick_def t viewer_inv_def)
qed

lemma hover_step_inv: "viewer_inv v \<Longrightarrow> viewer_inv (hover_step v e)"
  by (cases e)
    (simp_all add: on_node_inv hover_op_pointer_over hover_op_pointer_out
      hover_op_set_visible hover_op_set_clickable frame_tick_inv)

lemma hover_run_inv: "viewer_inv v \<Longrightarrow> viewer_inv (hover_run v evs)"
  unfolding hover_run_def
  by (induction evs arbitrary: v) (simp_all add: hover_step_inv)

lemma hovered_nodes_idle: "hovered_nodes (map idle_node attrs) = 0"
  by (induction attrs) (simp_all add: hovered_nodes_Nil hovered_nodes_Cons hv_def idle_node_def)

lemma init_viewer_inv: "viewer_inv (init_viewer attrs)"
  by (simp add: viewer_inv_def init_viewer_def hovered_nodes_idle cursor_ok_def)

lemma node_tick_must_clear:
  assumes "must_clear nd"
  shows "\<not> isHovered (hoveredRef (fst (node_tick nd (cnt, cur))))"
    and "snd (node_tick nd (cnt, cur)) = (cnt - 1, if cnt - 1 = 0 then ''auto'' else cur)"
  using assms
  by (auto simp: must_clear_def node_tick_def clickable_hover_check_def frame_hover_check_def)

lemma node_tick_hv_le: "hv (fst (node_tick nd cc)) \<le> hv nd"
  by (cases cc)
    (auto simp: node_tick_def clickable_hover_check_def frame_hover_check_def hv_def)

lemma node_tick_hv_clear: "must_clear nd \<Longrightarrow> hv (fst (node_tick nd cc)) \<le> hv nd - 1"
  using node_tick_must_clear(1)[of nd "fst cc" "snd cc"]
  by (simp add: hv_def must_clear_def)

lemma length_tick_nodes: "length (fst (tick_nodes nds cc)) = length nds"
  by (induction nds arbitrary: cc) (simp_all add: split_beta)

lemma tick_nodes_clears:
  "i < length nds \<Longrightarrow> must_clear (nds ! i) \<Longrightarrow>
     \<not> isHovered (hoveredRef (fst (tick_nodes nds cc) ! i))"
proof (induction nds arbitrary: i cc)
  case Nil
  then show ?case by simp
next
  case (Cons nd nds)
  show ?case
  proof (cases i)
    case 0
    with Cons.prems have "must_clear nd" by simp
    from node_tick_must_clear(1)[OF this, of "fst cc" "snd cc"] 0 show ?thesis
      by (simp add: split_beta)
  next
    case (Suc j)
    with Cons.prems have "j < length nds" "must_clear (nds ! j)" by simp_all
    from Cons.IH[OF this, of "snd (node_tick nd cc)"] Suc show ?thesis
      by (simp add: split_beta)
  qed
qed

lemma tick_nodes_hovered_le: "hovered_nodes (fst (tick_nodes nds cc)) \<le> hovered_nodes nds"
proof (induction nds arbitrary: cc)
  case Nil
  show ?case by simp
next
  case (Cons nd nds)
  from Cons.IH[of "snd (node_tick nd cc)"] node_tick_hv_le[of nd cc] show ?case
    by (simp add: split_beta hovered_nodes_Cons)
qed

lemma tick_nodes_hovered_less:
  "i < length nds \<Longrightarrow> must_clear (nds ! i) \<Longrightarrow>
     hovered_nodes (fst (tick_nodes nds cc)) \<le> hovered_nodes nds - 1"
proof (induction nds arbitrary: i cc)
  case Nil
  then show ?case by simp
next
  case (Cons nd nds)
  show ?case
  proof (cases i)
    case 0
    with Cons.prems have "must_clear nd" by simp
    from node_tick_hv_clear[OF this, of cc]
      tick_nodes_hovered_le[of nds "snd (node_tick nd cc)"]
    show ?thesis by (simp add: split_beta hovered_nodes_Cons)
  next
    case (Suc j)
    with Cons.prems have "j < length nds" "must_clear (nds ! j)" by simp_all
    from Cons.IH[OF this, of "snd (node_tick nd cc)"] node_tick_hv_le[of nd cc]
    show ?thesis by (simp add: split_beta hovered_nodes_Cons)
  qed
qed

lemma cursor_follows_node_tick: "cursor_follows node_tick"
  by (auto simp: cursor_follows_def node_tick_def clickable_hover_check_def
      frame_hover_check_def)

lemma tick_nodes_cursor:
  "tick_nodes nds (cnt, cur) = (nds', cnt', cur') \<Longrightarrow>
     cnt' \<le> cnt \<and> (cnt' = cnt \<longrightarrow> cur' = cur) \<and> (cnt' < cnt \<and> cnt' = 0 \<longrightarrow> cur' = ''auto'')"
proof (induction nds arbitrary: cnt cur nds' cnt' cur')
  case Nil
  then show ?case by simp
next
  case (Cons nd nds)
  obtain nd1 cnt1 cur1 where n1: "node_tick nd (cnt, cur) = (nd1, cnt1, cur1)"
    by (metis prod_cases3)
  obtain nds2 cnt2 cur2 where n2: "tick_nodes nds (cnt1, cur1) = (nds2, cnt2, cur2)"
    by (metis prod_cases3)
  from Cons.prems have eq: "cnt' = cnt2" "cur' = cur2"
    by (simp_all add: n1 n2)
  have a: "cnt1 \<le> cnt \<and> (cnt1 = cnt \<longrightarrow> cur1 = cur) \<and>
      (cnt1 < cnt \<and> cnt1 = 0 \<longrightarrow> cur1 = ''auto'')"
    using cursor_follows_node_tick n1 by (auto simp: cursor_follows_def split: prod.splits)
  from Cons.IH[OF n2] a show ?case
    unfolding eq by (smt (verit, best))
qed

section \<open>Properties of the texture slot\<close>

lemma init_slot_inv: "loader_inv init_slot"
  by (simp add: loader_inv_def init_slot_def)

lemma issue_inv:
  assumes "loader_inv s" "\<not> unmounted s"
  shows "loader_inv (issue_load s)"
  using assms
  unfolding loader_inv_def issue_load_def effect_cleanup_def Let_def
  by (auto simp: nth_append nth_list_update less_Suc_eq)

lemma teardown_inv:
  assumes "loader_inv s"
  shows "loader_inv (teardown s)"
  using assms
  unfolding loader_inv_def teardown_def effect_cleanup_def
  by (auto simp: nth_list_update)

lemma on_load_stale:
  assumes "cancelled s ! k"
  shows "on_load k s = s\<lparr>fired := (fired s)[k := True], tex_disposed := k # tex_disposed s\<rparr>"
  using assms by (simp add: on_load_def)

lemma on_load_current:
  assumes "\<not> cancelled s ! k"
  shows "on_load k s =
     s\<lparr>fired := (fired s)[k := True],
       tex_disposed := (case textureRef s of Some old \<Rightarrow> old # tex_disposed s
                        | None \<Rightarrow> tex_disposed s),
       textureRef := Some k, imageTexture := Some k\<rparr>"
  using assms by (simp add: on_load_def split: option.splits)

lemma complete_inv:
  assumes inv: "loader_inv s" and k: "k < length (fired s)" and nf: "\<not> fired s ! k"
  shows "loader_inv (on_load k s)"
proof -
  let ?n = "length (fired s)"
  from inv have len: "length (cancelled s) = ?n"
    and flags: "\<And>j. j < ?n \<Longrightarrow> cancelled s ! j \<longleftrightarrow> (Suc j < ?n \<or> unmounted s)"
    and dist: "distinct (tex_disposed s)"
    and prod: "\<And>j. (j \<in> set (tex_disposed s) \<or> textureRef s = Some j) \<longleftrightarrow> (j < ?n \<and> fired s ! j)"
    and cur: "\<And>j. textureRef s = Some j \<Longrightarrow> j \<notin> set (tex_disposed s)"
    and last: "\<not> unmounted s \<and> 0 < ?n \<and> fired s ! (?n - 1) \<longrightarrow> textureRef s = Some (?n - 1)"
    unfolding loader_inv_def by blast+
  from prod[of k] nf have knew: "k \<notin> set (tex_disposed s)" "textureRef s \<noteq> Some k"
    by auto
  show ?thesis
  proof (cases "cancelled s ! k")
    case True
    have "\<not> (\<not> unmounted s \<and> k = ?n - 1)"
      using flags[OF k] True k by auto
    then show ?thesis
      unfolding on_load_stale[OF True] loader_inv_def
      using len flags dist prod cur last knew k
      by (auto simp: nth_list_update)
  next
    case False
    with flags[OF k] k have kl: "k = ?n - 1" "\<not> unmounted s" by auto
    show ?thesis
    proof (cases "textureRef s")
      case None
      then show ?thesis
        unfolding on_load_current[OF False] loader_inv_def
        using len flags dist prod cur knew k kl
        by (auto simp: nth_list_update)
    next
      case (Some old)
      with prod[of old] cur[of old] have old: "old < ?n" "fired s ! old" "old \<notin> set (tex_disposed s)"
        by auto
      with nf have "old \<noteq> k" by auto
      with Some old show ?thesis
        unfolding on_load_current[OF False] loader_inv_def
        using len flags dist prod cur knew k kl
        by (auto simp: nth_list_update)
    qed
  qed
qed

lemma loader_step_inv: "loader_inv s \<Longrightarrow> loader_step s e = Some s' \<Longrightarrow> loader_inv s'"
  by (cases e) (auto simp: issue_inv teardown_inv complete_inv split: if_splits)

lemma loader_run_inv: "loader_inv s \<Longrightarrow> loader_run s evs = Some s' \<Longrightarrow> loader_inv s'"
proof (induction evs arbitrary: s)
  case Nil
  then show ?case by simp
next
  case (Cons e evs)
  then show ?case by (auto split: option.splits dest: loader_step_inv)
qed

lemma filter_eq_upt: "m < n \<Longrightarrow> filter (\<lambda>k. k = m) [0..<n] = [m]"
proof (induction n)
  case 0
  then show ?case by simp
next
  case (Suc n)
  show ?case
  proof (cases "m = n")
    case True
    have "filter (\<lambda>k. k = n) [0..<n] = []" by (simp add: filter_empty_conv)
    with True show ?thesis by simp
  next
    case False
    with Suc.prems have "m < n" by simp
    from Suc.IH[OF this] False show ?thesis by simp
  qed
qed

lemma length_fired_step:
  "loader_step s e = Some s' \<Longrightarrow>
     length (fired s') = length (fired s) + (if e = Issue then 1 else 0)"
  by (cases e)
    (auto simp: issue_load_def effect_cleanup_def on_load_def teardown_def Let_def
      split: if_splits option.splits)

lemma length_fired_run:
  "loader_run s evs = Some s' \<Longrightarrow> length (fired s') = length (fired s) + issued evs"
proof (induction evs arbitrary: s)
  case Nil
  then show ?case by (simp add: issued_def)
next
  case (Cons e evs)
  from Cons.prems obtain s1 where s1: "loader_step s e = Some s1" "loader_run s1 evs = Some s'"
    by (auto split: option.splits)
  from Cons.IH[OF s1(2)] length_fired_step[OF s1(1)] show ?case
    by (simp add: issued_def)
qed

lemma all_fired_final:
  assumes inv: "loader_inv s" and mounted: "\<not> unmounted s" and pos: "0 < length (fired s)"
    and all: "list_all (\<lambda>b. b) (fired s)"
  shows "textureRef s = Some (length (fired s) - 1)"
    and "live_textures s = [length (fired s) - 1]"
    and "length (tex_disposed s) = length (fired s) - 1"
proof -
  let ?n = "length (fired s)"
  from all have fired: "\<And>k. k < ?n \<Longrightarrow> fired s ! k"
    by (simp add: list_all_length)
  from inv have dist: "distinct (tex_disposed s)"
    and prod: "\<And>j. (j \<in> set (tex_disposed s) \<or> textureRef s = Some j) \<longleftrightarrow> (j < ?n \<and> fired s ! j)"
    and cur: "\<And>j. textureRef s = Some j \<Longrightarrow> j \<notin> set (tex_disposed s)"
    and last: "\<not> unmounted s \<and> 0 < ?n \<and> fired s ! (?n - 1) \<longrightarrow> textureRef s = Some (?n - 1)"
    unfolding loader_inv_def by blast+
  from last mounted pos fired[of "?n - 1"] show ref: "textureRef s = Some (?n - 1)" by simp
  have disp: "k \<in> set (tex_disposed s) \<longleftrightarrow> k < ?n - 1" for k
  proof
    assume d: "k \<in> set (tex_disposed s)"
    with prod[of k] have "k < ?n" by blast
    moreover from d cur[OF ref] have "k \<noteq> ?n - 1" by auto
    ultimately show "k < ?n - 1" by simp
  next
    assume "k < ?n - 1"
    then have "k < ?n" "k \<noteq> ?n - 1" by simp_all
    with prod[of k] fired[of k] ref show "k \<in> set (tex_disposed s)" by auto
  qed
  then have "set (tex_disposed s) = {..<?n - 1}" by auto
  then have "card (set (tex_disposed s)) = ?n - 1" by simp
  with dist show "length (tex_disposed s) = ?n - 1" by (simp add: distinct_card)
  have "filter (\<lambda>k. fired s ! k \<and> k \<notin> set (tex_disposed s)) [0..<?n] =
      filter (\<lambda>k. k = ?n - 1) [0..<?n]"
    using fired disp pos by (intro filter_cong) auto
  with pos show "live_textures s = [?n - 1]"
    by (simp add: live_textures_def filter_eq_upt)
qed

lemma live_textures_installed:
  assumes inv: "loader_inv s"
  shows "live_textures s = (case textureRef s of None \<Rightarrow> [] | Some k \<Rightarrow> [k])"
proof -
  let ?n = "length (fired s)"
  from inv have prod: "\<And>j. (j \<in> set (tex_disposed s) \<or> textureRef s = Some j) \<longleftrightarrow>
        (j < ?n \<and> fired s ! j)"
    and cur: "\<And>j. textureRef s = Some j \<Longrightarrow> j \<notin> set (tex_disposed s)"
    unfolding loader_inv_def by blast+
  show ?thesis
  proof (cases "textureRef s")
    case None
    with prod have "\<And>j. j < ?n \<Longrightarrow> fired s ! j \<Longrightarrow> j \<in> set (tex_disposed s)"
      by auto
    then have "filter (\<lambda>k. fired s ! k \<and> k \<notin> set (tex_disposed s)) [0..<?n] = []"
      by (auto simp: filter_empty_conv)
    with None show ?thesis by (simp add: live_textures_def)
  next
    case (Some k)
    with prod[of k] cur[of k] have k: "k < ?n" "fired s ! k" "k \<notin> set (tex_disposed s)"
      by auto
    have "filter (\<lambda>j. fired s ! j \<and> j \<notin> set (tex_disposed s)) [0..<?n] =
        filter (\<lambda>j. j = k) [0..<?n]"
    proof (intro filter_cong refl)
      fix j assume "j \<in> set [0..<?n]"
      then have "j < ?n" by simp
      with prod[of j] Some k show "(fired s ! j \<and> j \<notin> set (tex_disposed s)) = (j = k)"
        by auto
    qed
    with Some k(1) show ?thesis by (simp add: live_textures_def filter_eq_upt)
  qed
qed

lemmas eval_loader = init_slot_def issue_load_def effect_cleanup_def on_load_def teardown_def
  Let_def issued_def live_textures_def

section \<open>The claims about BoxMesh\<close>

text \<open>
  Claim C1. Whatever renders and unmounts of box nodes have happened, no material was
  disposed twice, and the live materials of the primary slot of a node \<open>n\<close> are exactly
  its current material: one when the node is mounted, none otherwise. For a mounted node,
  a pass whose material signature differs from the cached one disposes the previously
  cached material (one dispose call, of that material) and leaves the new material as
  the only live one; a pass with the same signature disposes nothing; unmounting
  disposes the current material and leaves none live.
\<close>

theorem material_conservation:
  "let s = run init_scene evs; w = the_world s;
       s' = step s (Render n p); s'' = step s (Unmount n)
   in distinct (disposed w) \<and>
      live_materials n w = current_material s n \<and>
      length (live_materials n w) \<le> 1 \<and>
      (instances s n \<noteq> None \<longrightarrow>
         length (current_material s n) = 1 \<and>
         (cached_deps s n \<noteq> Some (material_deps p) \<longrightarrow>
            disposed (the_world s') = current_material s n @ disposed w \<and>
            live_materials n (the_world s') = [length (heap w)]) \<and>
         (cached_deps s n = Some (material_deps p) \<longrightarrow>
            disposed (the_world s') = disposed w \<and>
            live_materials n (the_world s') = live_materials n w) \<and>
         disposed (the_world s'') = current_material s n @ disposed w \<and>
         live_materials n (the_world s'') = [])"
proof -
  let ?s = "run init_scene evs"
  let ?w = "the_world ?s"
  have inv: "scene_inv ?s" by (rule reachable_inv)
  then have wok: "world_ok ?w" and live: "live_materials n ?w = current_material ?s n"
    by (simp_all add: scene_inv_def)
  have dist: "distinct (disposed ?w)" using wok by (simp add: world_ok_def)
  have le1: "length (live_materials n ?w) \<le> 1"
    by (simp add: live current_material_def split: option.splits)
  have mounted: "length (current_material ?s n) = 1 \<and>
         (cached_deps ?s n \<noteq> Some (material_deps p) \<longrightarrow>
            disposed (the_world (step ?s (Render n p))) = current_material ?s n @ disposed ?w \<and>
            live_materials n (the_world (step ?s (Render n p))) = [length (heap ?w)]) \<and>
         (cached_deps ?s n = Some (material_deps p) \<longrightarrow>
            disposed (the_world (step ?s (Render n p))) = disposed ?w \<and>
            live_materials n (the_world (step ?s (Render n p))) = live_materials n ?w) \<and>
         disposed (the_world (step ?s (Unmount n))) = current_material ?s n @ disposed ?w \<and>
         live_materials n (the_world (step ?s (Unmount n))) = []"
    if "instances ?s n \<noteq> None"
    using inv
  proof (cases rule: hooks_cases[where n = n])
    case unmounted
    with that show ?thesis by simp
  next
    case (mounted h d m)
    note m = live_singleton[OF mounted(5)]
    have cur: "current_material ?s n = [m]" using live mounted(5) by simp
    have cd: "cached_deps ?s n = Some d"
      by (rule cached_deps_mounted[OF mounted(1,3)])
    have fresh: "length (heap ?w) \<notin> set (disposed ?w)" by (rule world_ok_fresh[OF wok])
    have changed: "disposed (the_world (step ?s (Render n p))) = m # disposed ?w \<and>
        live_materials n (the_world (step ?s (Render n p))) = [length (heap ?w)]"
      if "d \<noteq> material_deps p"
      using mounted(3,4,5) that m(1) fresh
      by (simp add: world_step_Render mounted(2) pass_world_changed rest_step_obs obs)
    have same: "disposed (the_world (step ?s (Render n p))) = disposed ?w \<and>
        live_materials n (the_world (step ?s (Render n p))) = live_materials n ?w"
      if "d = material_deps p"
      using mounted(3,4) that
      by (simp add: world_step_Render mounted(2) pass_world_same rest_step_obs)
    have un: "disposed (the_world (step ?s (Unmount n))) = m # disposed ?w \<and>
        live_materials n (the_world (step ?s (Unmount n))) = []"
      using mounted(4,5)
      by (simp add: world_step_Unmount_Some[OF mounted(1)] unmount_cleanup_def
          material_cleanup_def obs)
    from cur cd changed same un show ?thesis by simp
  qed
  from dist live le1 mounted show ?thesis by (simp add: Let_def)
qed

theorem material_conservation_witness:
  "let s = run init_scene [Render 0 example_box];
       p = example_box\<lparr>color := JObject 1\<rparr>
   in instances s 0 \<noteq> None \<and>
      cached_deps s 0 \<noteq> Some (material_deps p) \<and>
      current_material s 0 = [0] \<and>
      disposed (the_world (step s (Render 0 p))) = [0] \<and>
      live_materials 0 (the_world (step s (Render 0 p))) = [2] \<and>
      cached_deps s 0 = Some (material_deps example_box) \<and>
      disposed (the_world (step s (Render 0 example_box))) = [] \<and>
      disposed (the_world (step s (Unmount 0))) = [0] \<and>
      live_materials 0 (the_world (step s (Unmount 0))) = []"
  using material_conservation[where evs = "[Render 0 example_box]" and n = 0
      and p = "example_box\<lparr>color := JObject 1\<rparr>"]
    material_conservation[where evs = "[Render 0 example_box]" and n = 0
      and p = example_box]
  by (simp add: Let_def eval_scene cached_deps_def current_material_def)

text \<open>
  Claim C5 as stated fails for a field that holds an array: the dependencies are compared
  by \<^verbatim>\<open>Object.is\<close>, an array by its reference. A render whose colour is another array
  with the same contents has the same signature of values, and still the factory runs
  again and a new material (object 2) replaces the cached one (object 0).
\<close>

theorem material_signature_counterexample:
  "material_signature example_arrays (example_box\<lparr>color := JObject 1\<rparr>) =
     material_signature example_arrays example_box \<and>
   view_material (render_view 0 example_box init_scene) = Some 0 \<and>
   view_material (render_view 0 (example_box\<lparr>color := JObject 1\<rparr>)
     (run init_scene [Render 0 example_box])) = Some 2 \<and>
   material_count (the_world (run init_scene [Render 0 example_box])) = 1 \<and>
   material_count (the_world (run init_scene
     [Render 0 example_box, Render 0 (example_box\<lparr>color := JObject 1\<rparr>)])) = 2"
  by (simp add: material_signature_def example_arrays_def eval_scene view_material_eq
      material_count_def)

text \<open>
  Claim C5, amended. After a render of node \<open>n\<close> with properties \<open>p\<close>, the next render
  with properties \<open>p'\<close> returns the cached material object without calling the factory
  when each of the six fields material, color, wireframe, opacity, flat_shading and side
  of \<open>p'\<close> is the same as in \<open>p\<close> by \<^verbatim>\<open>Object.is\<close> (a number, string or boolean by its
  value, an array by its reference); when one of the six is not, the factory is called
  once and its new object replaces the cached one. A render that changes only scale,
  dimensions, cast_shadow or receive_shadow returns the cached material and does not
  call the factory.
\<close>

theorem material_recomputed_iff_signature_differs:
  "let s0 = run init_scene evs;
       s1 = step s0 (Render n p);
       s2 = step s1 (Render n p');
       same = (material p' = material p \<and> color p' = color p \<and>
               wireframe p' = wireframe p \<and> opacity p' = opacity p \<and>
               flat_shading p' = flat_shading p \<and> side p' = side p);
       q = p\<lparr>scale := sc, dimensions := dm, cast_shadow := cs, receive_shadow := rs\<rparr>
   in (same \<longrightarrow>
         view_material (render_view n p' s1) = view_material (render_view n p s0) \<and>
         material_count (the_world s2) = material_count (the_world s1)) \<and>
      (\<not> same \<longrightarrow>
         view_material (render_view n p' s1) = Some (length (heap (the_world s1))) \<and>
         view_material (render_view n p' s1) \<noteq> view_material (render_view n p s0) \<and>
         material_count (the_world s2) = Suc (material_count (the_world s1))) \<and>
      view_material (render_view n q s1) = view_material (render_view n p s0) \<and>
      material_count (the_world (step s1 (Render n q))) = material_count (the_world s1)"
proof -
  let ?q = "p\<lparr>scale := sc, dimensions := dm, cast_shadow := cs, receive_shadow := rs\<rparr>"
  have deps: "material_deps p' = material_deps p \<longleftrightarrow>
      (material p' = material p \<and> color p' = color p \<and>
       wireframe p' = wireframe p \<and> opacity p' = opacity p \<and>
       flat_shading p' = flat_shading p \<and> side p' = side p)"
    by (simp add: material_deps_def)
  have depsq: "material_deps ?q = material_deps p"
    by (simp add: material_deps_def)
  note a = material_memo_next[where evs = evs and n = n and p = p and p' = p',
      unfolded Let_def deps]
  note b = material_memo_next[where evs = evs and n = n and p = p and p' = ?q,
      unfolded Let_def, THEN conjunct1, rule_format, OF depsq]
  from a b show ?thesis unfolding Let_def by blast
qed

theorem material_recomputed_iff_signature_differs_witness:
  "wireframe (example_box\<lparr>wireframe := JBool True\<rparr>) \<noteq> wireframe example_box \<and>
   view_material (render_view 0 example_box (run init_scene [])) = Some 0 \<and>
   view_material (render_view 0 (example_box\<lparr>wireframe := JBool True\<rparr>)
     (step (run init_scene []) (Render 0 example_box))) = Some 2 \<and>
   view_material (render_view 0 example_box
     (step (run init_scene []) (Render 0 example_box))) = Some 0 \<and>
   view_material (render_view 0
     (example_box\<lparr>scale := ScaleNumber (Num 2), dimensions := (Num 1, Num 2, Num 3),
        cast_shadow := False, receive_shadow := RSNumber (Num (1/2))\<rparr>)
     (step (run init_scene []) (Render 0 example_box))) = Some 0"
proof -
  let ?s1 = "step (run init_scene []) (Render 0 example_box)"
  let ?wire = "example_box\<lparr>wireframe := JBool True\<rparr>"
  have d1: "wireframe ?wire \<noteq> wireframe example_box"
    by (simp add: example_box_def)
  have len: "length (heap (the_world ?s1)) = 2"
    by (simp add: eval_scene)
  have v0: "view_material (render_view 0 example_box (run init_scene [])) = Some 0"
    by (simp add: eval_scene view_material_eq)
  from material_recomputed_iff_signature_differs[where evs = "[]" and n = 0
      and p = example_box and p' = ?wire, unfolded Let_def] d1
  have "view_material (render_view 0 ?wire ?s1) = Some (length (heap (the_world ?s1)))"
    by blast
  then have a: "view_material (render_view 0 ?wire ?s1) = Some 2"
    unfolding len .
  from material_recomputed_iff_signature_differs[where evs = "[]" and n = 0
      and p = example_box and p' = example_box and sc = "ScaleNumber (Num 2)"
      and dm = "(Num 1, Num 2, Num 3)" and cs = False and rs = "RSNumber (Num (1/2))",
      unfolded Let_def]
  have "view_material (render_view 0 example_box ?s1) =
        view_material (render_view 0 example_box (run init_scene [])) \<and>
      view_material (render_view 0
        (example_box\<lparr>scale := ScaleNumber (Num 2), dimensions := (Num 1, Num 2, Num 3),
           cast_shadow := False, receive_shadow := RSNumber (Num (1/2))\<rparr>) ?s1) =
        view_material (render_view 0 example_box (run init_scene []))"
    by blast
  with v0 a d1 show ?thesis by simp
qed

text \<open>
  Claim C6, on the code as it is. \<^verbatim>\<open>BoxMesh\<close> has no cleanup for its shadow material:
  a box rendered with \<^verbatim>\<open>receive_shadow = 0.5\<close> creates a ShadowMaterial (object 2), and
  neither a render with \<^verbatim>\<open>receive_shadow = 0\<close>, nor a render with another positive
  opacity, nor the removal of the node disposes it; the removal disposes the primary
  material (object 0) only.
\<close>

theorem shadow_material_never_disposed:
  "let half = example_box\<lparr>receive_shadow := RSNumber (Num (1/2))\<rparr>;
       zero = example_box\<lparr>receive_shadow := RSNumber (Num 0)\<rparr>;
       other = example_box\<lparr>receive_shadow := RSNumber (Num (3/4))\<rparr>;
       s1 = run init_scene [Render 0 half];
       s2 = run init_scene [Render 0 half, Render 0 zero];
       s3 = run init_scene [Render 0 half, Render 0 other];
       s4 = run init_scene [Render 0 half, Unmount 0]
   in heap (the_world s1) ! 2 = (ShadowMaterial (Num (1/2)), 0) \<and>
      view_shadow_mesh (render_view 0 half init_scene) = Some (Some 1, Some 2) \<and>
      view_shadow_mesh (render_view 0 zero s1) = None \<and>
      disposed (the_world s2) = [] \<and>
      view_shadow_mesh (render_view 0 other s1) = Some (Some 1, Some 3) \<and>
      disposed (the_world s3) = [] \<and>
      instances s4 0 = None \<and> disposed (the_world s4) = [0]"
  by (simp add: Let_def eval_scene view_shadow_mesh_eq)

text \<open>
  Claim C7. After any renders and unmounts of any box nodes there is at most one box
  geometry, the one the module variable names; the variable is empty exactly as long as
  no render has happened; every render returns a view whose geometry is the value of the
  variable; once the variable is set, it and the geometry of every later view of every
  node stay that object; and dispose has never been called on a geometry.
\<close>

theorem shared_box_geometry:
  "let s = run init_scene evs; s' = run s evs'; w' = the_world s';
       v = render_view n p s'
   in geometries w' = (case boxGeometry w' of None \<Rightarrow> [] | Some g \<Rightarrow> [g]) \<and>
      length (geometries w') \<le> 1 \<and>
      (boxGeometry (the_world s) = None \<longleftrightarrow> \<not> list_ex is_Render evs) \<and>
      view_geometry v \<noteq> None \<and>
      view_geometry v = boxGeometry (the_world (step s' (Render n p))) \<and>
      (boxGeometry (the_world s) \<noteq> None \<longrightarrow>
         boxGeometry w' = boxGeometry (the_world s) \<and>
         view_geometry v = boxGeometry (the_world s)) \<and>
      (\<forall>g \<in> set (geometries w'). g \<notin> set (disposed w'))"
proof -
  let ?s = "run init_scene evs"
  let ?s' = "run ?s evs'"
  let ?w' = "the_world ?s'"
  have inv: "scene_inv ?s'" by (simp add: run_inv reachable_inv)
  then have wok: "world_ok ?w'" by (simp add: scene_inv_def)
  then have geo: "geometries ?w' = (case boxGeometry ?w' of None \<Rightarrow> [] | Some g \<Rightarrow> [g])"
    by (simp add: world_ok_def)
  then have le1: "length (geometries ?w') \<le> 1" by (simp split: option.splits)
  have first: "boxGeometry (the_world ?s) = None \<longleftrightarrow> \<not> list_ex is_Render evs"
    by (simp add: run_boxGeometry_None init_scene_def)
  have v1: "view_geometry (render_view n p ?s') \<noteq> None"
    by (simp only: view_geometry_eq step_boxGeometry_Render not_False_eq_True)
  have persist: "boxGeometry ?w' = boxGeometry (the_world ?s) \<and>
      view_geometry (render_view n p ?s') = boxGeometry (the_world ?s)"
    if "boxGeometry (the_world ?s) \<noteq> None"
  proof -
    from that obtain g where g: "boxGeometry (the_world ?s) = Some g" by auto
    from run_boxGeometry_persists[OF g] have g': "boxGeometry ?w' = Some g" .
    from step_boxGeometry_persists[OF g'] g g' show ?thesis
      by (simp add: view_geometry_eq)
  qed
  have nd: "\<forall>g \<in> set (geometries ?w'). g \<notin> set (disposed ?w')"
    using geometry_not_disposed[OF wok] by blast
  have v2: "view_geometry (render_view n p ?s') =
      boxGeometry (the_world (step ?s' (Render n p)))"
    by (rule view_geometry_eq)
  from geo le1 first v1 v2 persist nd show ?thesis
    unfolding Let_def by blast
qed

theorem shared_box_geometry_witness:
  "boxGeometry (the_world (run init_scene [Render 0 example_box])) = Some 1 \<and>
   boxGeometry (the_world (run (run init_scene [Render 0 example_box])
      [Render 1 example_box, Unmount 0])) = Some 1 \<and>
   view_geometry (render_view 2 example_box (run (run init_scene [Render 0 example_box])
      [Render 1 example_box, Unmount 0])) = Some 1"
proof -
  let ?s = "run init_scene [Render 0 example_box]"
  let ?s' = "run ?s [Render 1 example_box, Unmount 0]"
  have g: "boxGeometry (the_world ?s) = Some 1"
    by (simp add: eval_scene)
  then have "boxGeometry (the_world ?s) \<noteq> None" by simp
  with shared_box_geometry[where evs = "[Render 0 example_box]"
      and evs' = "[Render 1 example_box, Unmount 0]" and n = 2 and p = example_box,
      unfolded Let_def]
  have "boxGeometry (the_world ?s') = boxGeometry (the_world ?s) \<and>
      view_geometry (render_view 2 example_box ?s') = boxGeometry (the_world ?s)"
    by blast
  with g show ?thesis by simp
qed

text \<open>
  Claim C10. For every properties record, in every reachable state: the primary mesh
  receives shadows exactly when \<^verbatim>\<open>receive_shadow\<close> is the boolean true; the view has a
  shadow sub-mesh exactly when \<^verbatim>\<open>receive_shadow\<close> is a number greater than zero, and
  then the material of the sub-mesh is a ShadowMaterial whose opacity is that number;
  when \<^verbatim>\<open>receive_shadow\<close> is not a number the shadow opacity is 0 and there is no
  sub-mesh.
\<close>

theorem shadow_receiving:
  "let s = run init_scene evs; v = render_view n p s;
       w' = the_world (step s (Render n p))
   in view_receiveShadow v = (receive_shadow p = RSBool True) \<and>
      (view_shadow_mesh v \<noteq> None \<longleftrightarrow>
         (case receive_shadow p of RSNumber x \<Rightarrow> gt_zero x | RSBool b \<Rightarrow> False)) \<and>
      shadow_mesh_opacity v w' =
         (case receive_shadow p of
            RSNumber x \<Rightarrow> if gt_zero x then Some x else None
          | RSBool b \<Rightarrow> None) \<and>
      (case receive_shadow p of
         RSNumber x \<Rightarrow> shadowOpacity p = x
       | RSBool b \<Rightarrow> shadowOpacity p = Num 0 \<and> view_shadow_mesh v = None)"
proof -
  let ?s = "run init_scene evs"
  let ?s' = "step ?s (Render n p)"
  let ?w' = "the_world ?s'"
  let ?h = "hooks_of ?s n"
  let ?sv = "shadow_value ?h p (geo_step n (mat_step n ?h p (the_world ?s)))"
  let ?so = "shadowOpacity p"
  let ?v = "render_view n p ?s"
  have inv': "scene_inv ?s'" by (simp add: step_inv reachable_inv)
  have inst: "instances ?s' n = Some (hooks_of ?s' n)"
    by (simp add: step_Render hooks_of_def)
  have memo: "shadow_memo (hooks_of ?s' n) = Some (?so, ?sv)"
    by (simp add: hooks_after_Render pass_hooks)
  from inv' inst have "shadow_ok ?w' n (hooks_of ?s' n)"
    unfolding scene_inv_def by blast
  with memo have sv_none: "?sv = None \<longleftrightarrow> strict_eq_zero ?so"
    and sv_some: "\<And>k. ?sv = Some k \<Longrightarrow>
        k < length (heap ?w') \<and> heap ?w' ! k = (ShadowMaterial ?so, n)"
    by (auto simp: shadow_ok_def)
  have mesh: "view_shadow_mesh ?v =
      (if gt_zero ?so then Some (boxGeometry ?w', ?sv) else None)"
    using sv_none gt_zero_not_zero[of ?so]
    by (auto simp: view_shadow_mesh_eq Let_def)
  have opac: "shadow_mesh_opacity ?v ?w' = (if gt_zero ?so then Some ?so else None)"
  proof (cases "gt_zero ?so")
    case True
    with sv_none gt_zero_not_zero[of ?so] obtain k where k: "?sv = Some k" by auto
    from sv_some[OF k] True k show ?thesis
      by (simp add: shadow_mesh_opacity_def mesh)
  next
    case False
    then show ?thesis by (simp add: shadow_mesh_opacity_def mesh)
  qed
  show ?thesis
  proof (cases "receive_shadow p")
    case (RSBool b)
    then have so: "?so = Num 0" by (simp add: shadowOpacity_def)
    with RSBool mesh opac show ?thesis
      by (simp add: Let_def view_receiveShadow_eq)
  next
    case (RSNumber x)
    then have so: "?so = x" by (simp add: shadowOpacity_def)
    with RSNumber mesh opac show ?thesis
      by (simp add: Let_def view_receiveShadow_eq)
  qed
qed

theorem shadow_receiving_witness:
  "receive_shadow (example_box\<lparr>receive_shadow := RSNumber (Num (1/2))\<rparr>) =
     RSNumber (Num (1/2)) \<and> gt_zero (Num (1/2)) \<and>
   shadow_mesh_opacity
     (render_view 0 (example_box\<lparr>receive_shadow := RSNumber (Num (1/2))\<rparr>)
        (run init_scene [Render 0 example_box]))
     (the_world (step (run init_scene [Render 0 example_box])
        (Render 0 (example_box\<lparr>receive_shadow := RSNumber (Num (1/2))\<rparr>)))) =
     Some (Num (1/2)) \<and>
   view_receiveShadow (render_view 0 example_box (run init_scene [Render 0 example_box])) \<and>
   view_shadow_mesh (render_view 0 example_box (run init_scene [Render 0 example_box])) = None"
proof -
  let ?s = "run init_scene [Render 0 example_box]"
  let ?p = "example_box\<lparr>receive_shadow := RSNumber (Num (1/2))\<rparr>"
  have r1: "receive_shadow ?p = RSNumber (Num (1/2))" by simp
  have r2: "receive_shadow example_box = RSBool True" by (simp add: example_box_def)
  from shadow_receiving[where evs = "[Render 0 example_box]" and n = 0 and p = ?p,
      unfolded Let_def]
  have "shadow_mesh_opacity (render_view 0 ?p ?s) (the_world (step ?s (Render 0 ?p))) =
      (case receive_shadow ?p of
         RSNumber x \<Rightarrow> if gt_zero x then Some x else None | RSBool b \<Rightarrow> None)"
    by blast
  then have a: "shadow_mesh_opacity (render_view 0 ?p ?s) (the_world (step ?s (Render 0 ?p))) =
      Some (Num (1/2))"
    by (simp add: r1)
  from shadow_receiving[where evs = "[Render 0 example_box]" and n = 0 and p = example_box,
      unfolded Let_def]
  have "view_receiveShadow (render_view 0 example_box ?s) =
        (receive_shadow example_box = RSBool True) \<and>
      (case receive_shadow example_box of
         RSNumber x \<Rightarrow> shadowOpacity example_box = x
       | RSBool b \<Rightarrow> shadowOpacity example_box = Num 0 \<and>
           view_shadow_mesh (render_view 0 example_box ?s) = None)"
    by blast
  then have b: "view_receiveShadow (render_view 0 example_box ?s) \<and>
      view_shadow_mesh (render_view 0 example_box ?s) = None"
    by (simp add: r2)
  from a b r1 show ?thesis by simp
qed

section \<open>The claims about the environment store\<close>

text \<open>
  Claim C8. Two viewer instances that call \<^verbatim>\<open>useEnvironmentState\<close> for the first time,
  whatever stores exist already, get two different new stores, each holding the initial
  state. Writing one of them (any fields, the fog and the lighting flags included)
  leaves the state of the other, and of every store that existed before, as it was.
  A later render of either instance gets the store of its first render, and no new
  store is made.
\<close>

theorem environment_stores_independent:
  "let (a, slot_a, sh1) = useEnvironmentState None sh0;
       (b, slot_b, sh2) = useEnvironmentState None sh1;
       sh3 = setState a f sh2;
       sh4 = setState b g sh2
   in a \<noteq> b \<and>
      a \<notin> {..<length sh0} \<and> b \<notin> {..<length sh1} \<and>
      getState a sh2 = initial_environment \<and> getState b sh2 = initial_environment \<and>
      getState a sh3 = f initial_environment \<and> getState b sh3 = getState b sh2 \<and>
      getState b sh4 = g initial_environment \<and> getState a sh4 = getState a sh2 \<and>
      (\<forall>i < length sh0. getState i sh3 = getState i sh0 \<and> getState i sh4 = getState i sh0) \<and>
      useEnvironmentState slot_a sh3 = (a, slot_a, sh3) \<and>
      useEnvironmentState slot_b sh3 = (b, slot_b, sh3)"
  by (simp add: useEnvironmentState_first useEnvironmentState_again getState_setState
      getState_append nth_append Let_def)

theorem environment_stores_independent_witness:
  "let sh0 = [initial_environment\<lparr>enableDefaultLights := False\<rparr>];
       (a, slot_a, sh1) = useEnvironmentState None sh0;
       (b, slot_b, sh2) = useEnvironmentState None sh1;
       sh3 = setState a (\<lambda>st. st\<lparr>enableDefaultLightsShadows := False\<rparr>) sh2
   in (0::nat) < length sh0 \<and> a = 1 \<and> b = 2 \<and>
      \<not> enableDefaultLightsShadows (getState a sh3) \<and>
      enableDefaultLightsShadows (getState b sh3) \<and>
      getState b sh3 = initial_environment \<and>
      getState 0 sh3 = initial_environment\<lparr>enableDefaultLights := False\<rparr>"
  using environment_stores_independent[where
      ?sh0.0 = "[initial_environment\<lparr>enableDefaultLights := False\<rparr>]"
      and f = "\<lambda>st. st\<lparr>enableDefaultLightsShadows := False\<rparr>" and g = id]
  by (simp add: useEnvironmentState_first useEnvironmentState_again getState_setState
      getState_append Let_def initial_environment_def getState_def)

text \<open>
  Claim C9. A fog message written to the store of a viewer is what the store holds
  afterwards, field for field and whatever the values are (\<open>near\<close> above \<open>far\<close>, NaN
  and negative numbers included): the state is the previous state with the fog replaced
  by the message. Nothing is rejected and nothing is reordered; a second write replaces
  the first in the same way.
\<close>

theorem fog_recorded_unchanged:
  "let (a, slot_a, sh1) = useEnvironmentState None sh0;
       sh2 = setState a (\<lambda>st. st\<lparr>fog := fg\<rparr>) sh1
   in fog (getState a sh2) = fg \<and>
      getState a sh2 = initial_environment\<lparr>fog := fg\<rparr> \<and>
      fog (getState a (setState a (\<lambda>st. st\<lparr>fog := fg'\<rparr>) sh2)) = fg'"
  by (simp add: useEnvironmentState_first getState_setState getState_append Let_def
      length_setState)

theorem fog_recorded_unchanged_witness:
  "let fg = \<lparr>near = Num 50, far = Num 10, color = (Num 0, Num 0, Num 0), enabled = True\<rparr>;
       (a, slot_a, sh1) = useEnvironmentState None [];
       sh2 = setState a (\<lambda>st. st\<lparr>fog := fg\<rparr>) sh1
   in near (fog (getState a sh2)) = Num 50 \<and> far (fog (getState a sh2)) = Num 10 \<and>
      enabled (fog (getState a sh2))"
  using fog_recorded_unchanged[where ?sh0.0 = "[]"
      and fg = "\<lparr>near = Num 50, far = Num 10, color = (Num 0, Num 0, Num 0), enabled = True\<rparr>"]
  by (simp add: useEnvironmentState_first getState_setState getState_append Let_def)

section \<open>The claims about the hover state\<close>

text \<open>
  Claim C2. A node whose hover flag is set and that is not effectively visible, or not
  clickable, leaves the Hovered state on the frame tick, and the tick decrements the
  counter for it: the checks of that node take the counter from \<open>cnt\<close> to \<open>cnt - 1\<close> and
  set the cursor to \<^verbatim>\<open>auto\<close> when that is zero; after the tick of the viewer the flag of the
  node is clear and the counter is lower by at least one. When the counter is 1 and
  counts the hovered nodes, the tick leaves the counter at 0 and the cursor at \<^verbatim>\<open>auto\<close>.
  No pointer event takes part. For a node that is still clickable the tick is the check
  of the fix report alone; the check for a node that is no longer clickable is modelled
  from the spec.
\<close>

theorem hover_cleared_on_tick:
  "i < length (nodes v) \<and> isHovered (hoveredRef (nodes v ! i)) \<and>
   (\<not> effectiveVisibility (nodes v ! i) \<or> \<not> clickable (nodes v ! i)) \<longrightarrow>
     \<not> isHovered (hoveredRef (fst (node_tick (nodes v ! i) (cnt, cur)))) \<and>
     snd (node_tick (nodes v ! i) (cnt, cur)) = (cnt - 1, if cnt - 1 = 0 then ''auto'' else cur) \<and>
     (clickable (nodes v ! i) \<longrightarrow>
        node_tick (nodes v ! i) (cnt, cur) = frame_hover_check (nodes v ! i) (cnt, cur)) \<and>
     \<not> isHovered (hoveredRef (nodes (frame_tick v) ! i)) \<and>
     hoveredElementsCount (frame_tick v) \<le> hoveredElementsCount v - 1 \<and>
     (hoveredElementsCount v = 1 \<and> hovered_nodes (nodes v) = 1 \<longrightarrow>
        hoveredElementsCount (frame_tick v) = 0 \<and> cursor (frame_tick v) = ''auto'')"
proof (intro impI)
  assume asm: "i < length (nodes v) \<and> isHovered (hoveredRef (nodes v ! i)) \<and>
   (\<not> effectiveVisibility (nodes v ! i) \<or> \<not> clickable (nodes v ! i))"
  then have i: "i < length (nodes v)" and mc: "must_clear (nodes v ! i)"
    by (simp_all add: must_clear_def)
  let ?cnt = "hoveredElementsCount v"
  obtain nds' cnt' cur' where
    t: "tick_nodes (nodes v) (?cnt, cursor v) = (nds', cnt', cur')"
    by (metis prod_cases3)
  have ft: "nodes (frame_tick v) = nds'" "hoveredElementsCount (frame_tick v) = cnt'"
    "cursor (frame_tick v) = cur'"
    by (simp_all add: frame_tick_def t)
  have nds': "nds' = fst (tick_nodes (nodes v) (?cnt, cursor v))" by (simp add: t)
  have cleared: "\<not> isHovered (hoveredRef (nds' ! i))"
    unfolding nds' by (rule tick_nodes_clears[OF i mc])
  have less: "hovered_nodes nds' \<le> hovered_nodes (nodes v) - 1"
    unfolding nds' by (rule tick_nodes_hovered_less[OF i mc])
  have delta: "cnt' - hovered_nodes nds' = ?cnt - hovered_nodes (nodes v)"
    by (rule tick_nodes_inv(1)[OF t])
  have dec: "cnt' \<le> ?cnt - 1" using less delta by simp
  have one: "cnt' = 0 \<and> cur' = ''auto''" if "?cnt = 1" "hovered_nodes (nodes v) = 1"
  proof -
    from that less delta hovered_nodes_nonneg[of nds'] have z: "cnt' = 0" by simp
    with tick_nodes_cursor[OF t] that(1) show ?thesis by simp
  qed
  have src: "node_tick (nodes v ! i) (cnt, cur) = frame_hover_check (nodes v ! i) (cnt, cur)"
    if "clickable (nodes v ! i)"
    using that by (simp add: node_tick_def clickable_hover_check_def)
  from node_tick_must_clear[OF mc, of cnt cur] cleared dec one src
  show "\<not> isHovered (hoveredRef (fst (node_tick (nodes v ! i) (cnt, cur)))) \<and>
     snd (node_tick (nodes v ! i) (cnt, cur)) = (cnt - 1, if cnt - 1 = 0 then ''auto'' else cur) \<and>
     (clickable (nodes v ! i) \<longrightarrow>
        node_tick (nodes v ! i) (cnt, cur) = frame_hover_check (nodes v ! i) (cnt, cur)) \<and>
     \<not> isHovered (hoveredRef (nodes (frame_tick v) ! i)) \<and>
     hoveredElementsCount (frame_tick v) \<le> hoveredElementsCount v - 1 \<and>
     (hoveredElementsCount v = 1 \<and> hovered_nodes (nodes v) = 1 \<longrightarrow>
        hoveredElementsCount (frame_tick v) = 0 \<and> cursor (frame_tick v) = ''auto'')"
    unfolding ft by blast
qed

theorem hover_cleared_on_tick_witness:
  "hoveredElementsCount (frame_tick hovered_hidden_viewer) = 0 \<and>
   cursor (frame_tick hovered_hidden_viewer) = ''auto'' \<and>
   \<not> isHovered (hoveredRef (nodes (frame_tick hovered_hidden_viewer) ! 0)) \<and>
   hoveredElementsCount (frame_tick hovered_unclickable_viewer) = 0 \<and>
   cursor (frame_tick hovered_unclickable_viewer) = ''auto'' \<and>
   \<not> isHovered (hoveredRef (nodes (frame_tick hovered_unclickable_viewer) ! 0))"
proof -
  have h1: "0 < length (nodes hovered_hidden_viewer) \<and>
      isHovered (hoveredRef (nodes hovered_hidden_viewer ! 0)) \<and>
      (\<not> effectiveVisibility (nodes hovered_hidden_viewer ! 0) \<or>
       \<not> clickable (nodes hovered_hidden_viewer ! 0))"
    by (simp add: hovered_hidden_viewer_def)
  have c1: "hoveredElementsCount hovered_hidden_viewer = 1 \<and>
      hovered_nodes (nodes hovered_hidden_viewer) = 1"
    by (simp add: hovered_hidden_viewer_def hovered_nodes_def)
  have h2: "0 < length (nodes hovered_unclickable_viewer) \<and>
      isHovered (hoveredRef (nodes hovered_unclickable_viewer ! 0)) \<and>
      (\<not> effectiveVisibility (nodes hovered_unclickable_viewer ! 0) \<or>
       \<not> clickable (nodes hovered_unclickable_viewer ! 0))"
    by (simp add: hovered_unclickable_viewer_def)
  have c2: "hoveredElementsCount hovered_unclickable_viewer = 1 \<and>
      hovered_nodes (nodes hovered_unclickable_viewer) = 1"
    by (simp add: hovered_unclickable_viewer_def hovered_nodes_def)
  from hover_cleared_on_tick[where v = hovered_hidden_viewer and i = 0] h1 c1
    hover_cleared_on_tick[where v = hovered_unclickable_viewer and i = 0] h2 c2
  show ?thesis by blast
qed

text \<open>
  Claim C4. After any sequence of pointer-over and pointer-out events, visibility and
  clickability changes and frame ticks, from a viewer where nothing is hovered, the
  counter is the number of nodes whose hover flag is set, hence not negative, and the
  cursor is \<^verbatim>\<open>pointer\<close> exactly when the counter is above zero and \<^verbatim>\<open>auto\<close> exactly when
  it is zero. In such a state the frame check of the fix report leaves the counter
  non-negative for every node: its decrement never takes the counter below zero. The
  pointer-driven transitions and the check for a node that is no longer clickable are
  modelled from the spec.
\<close>

theorem hover_count_nonnegative:
  "let v = hover_run (init_viewer attrs) evs
   in hoveredElementsCount v = hovered_nodes (nodes v) \<and>
      0 \<le> hoveredElementsCount v \<and>
      (cursor v = ''pointer'' \<longleftrightarrow> 0 < hoveredElementsCount v) \<and>
      (cursor v = ''auto'' \<longleftrightarrow> hoveredElementsCount v = 0) \<and>
      (i < length (nodes v) \<longrightarrow>
         0 \<le> fst (snd (frame_hover_check (nodes v ! i) (hoveredElementsCount v, cursor v))))"
proof -
  let ?v = "hover_run (init_viewer attrs) evs"
  have inv: "viewer_inv ?v" by (rule hover_run_inv[OF init_viewer_inv])
  then have cnt: "hoveredElementsCount ?v = hovered_nodes (nodes ?v)"
    and ok: "cursor_ok (hoveredElementsCount ?v) (cursor ?v)"
    unfolding viewer_inv_def by blast+
  have chk: "0 \<le> fst (snd (frame_hover_check (nodes ?v ! i)
      (hoveredElementsCount ?v, cursor ?v)))" if i: "i < length (nodes ?v)"
  proof -
    obtain nd' cnt' cur' where f: "frame_hover_check (nodes ?v ! i)
        (hoveredElementsCount ?v, cursor ?v) = (nd', cnt', cur')"
      by (metis prod_cases3)
    from hover_opD(1)[OF hover_op_frame_hover_check f]
    have "cnt' - hv nd' = hoveredElementsCount ?v - hv (nodes ?v ! i)" .
    with hv_le_hovered_nodes[OF i] cnt hv_range(1)[of nd'] have "0 \<le> cnt'" by simp
    then show ?thesis by (simp add: f)
  qed
  from cnt ok chk show ?thesis
    unfolding Let_def cursor_ok_def by blast
qed

theorem hover_count_nonnegative_witness:
  "hoveredElementsCount (hover_run (init_viewer [(True, True)]) [PointerOver 0]) = 1 \<and>
   cursor (hover_run (init_viewer [(True, True)]) [PointerOver 0]) = ''pointer'' \<and>
   hoveredElementsCount (hover_run (init_viewer [(True, True)])
      [PointerOver 0, SetVisible 0 False, FrameTick, PointerOut 0]) = 0 \<and>
   cursor (hover_run (init_viewer [(True, True)])
      [PointerOver 0, SetVisible 0 False, FrameTick, PointerOut 0]) = ''auto'' \<and>
   0 < length (nodes (hover_run (init_viewer [(True, True)])
      [PointerOver 0, SetVisible 0 False])) \<and>
   0 \<le> fst (snd (frame_hover_check
      (nodes (hover_run (init_viewer [(True, True)]) [PointerOver 0, SetVisible 0 False]) ! 0)
      (hoveredElementsCount
         (hover_run (init_viewer [(True, True)]) [PointerOver 0, SetVisible 0 False]),
       cursor (hover_run (init_viewer [(True, True)]) [PointerOver 0, SetVisible 0 False]))))"
proof -
  let ?v1 = "hover_run (init_viewer [(True, True)]) [PointerOver 0]"
  let ?v2 = "hover_run (init_viewer [(True, True)])
      [PointerOver 0, SetVisible 0 False, FrameTick, PointerOut 0]"
  let ?v3 = "hover_run (init_viewer [(True, True)]) [PointerOver 0, SetVisible 0 False]"
  have n1: "hovered_nodes (nodes ?v1) = 1"
    by (simp add: hover_run_def init_viewer_def idle_node_def on_node_def pointer_over_def
        hovered_nodes_def)
  have n2: "hovered_nodes (nodes ?v2) = 0"
    by (simp add: hover_run_def init_viewer_def idle_node_def on_node_def pointer_over_def
        pointer_out_def frame_tick_def node_tick_def clickable_hover_check_def
        frame_hover_check_def hovered_nodes_def)
  have n3: "0 < length (nodes ?v3)"
    by (simp add: hover_run_def init_viewer_def idle_node_def on_node_def pointer_over_def)
  from hover_count_nonnegative[where attrs = "[(True, True)]" and evs = "[PointerOver 0]",
      unfolded Let_def] n1
  have a: "hoveredElementsCount ?v1 = 1 \<and> cursor ?v1 = ''pointer''" by simp
  from hover_count_nonnegative[where attrs = "[(True, True)]"
      and evs = "[PointerOver 0, SetVisible 0 False, FrameTick, PointerOut 0]",
      unfolded Let_def] n2
  have b: "hoveredElementsCount ?v2 = 0 \<and> cursor ?v2 = ''auto''" by simp
  from hover_count_nonnegative[where attrs = "[(True, True)]"
      and evs = "[PointerOver 0, SetVisible 0 False]" and i = 0, unfolded Let_def] n3
  have c: "0 \<le> fst (snd (frame_hover_check (nodes ?v3 ! 0)
      (hoveredElementsCount ?v3, cursor ?v3)))"
    by blast
  from a b n3 c show ?thesis by blast
qed

section \<open>The claim about the texture slot\<close>

text \<open>
  Claim C3 as stated fails when the owner is torn down before any load has installed its
  texture: with one load, unmounted before it completes, the completion disposes the
  texture, so that after all completions no texture is live and one dispose call, not
  zero, was made.
\<close>

theorem texture_count_counterexample:
  "loader_run init_slot [Issue, Teardown, Complete 0] = Some torn_result \<and>
   issued [Issue, Teardown, Complete 0] = 1 \<and>
   list_all (\<lambda>b. b) (fired torn_result) \<and>
   live_textures torn_result = [] \<and>
   tex_disposed torn_result = [0]"
  by (simp add: torn_result_def eval_loader)

text \<open>
  Claim C3, amended. After any sequence of loads, completions and at most one unmount:
  the number of loads is the number of issue events; no texture has been disposed twice;
  while the component is mounted the live textures are the installed one, if there is
  one; the flag of a load is set
  exactly when a later load has been issued or the component is unmounted; and the
  completion of a load whose flag is set leaves the installed texture as it is and
  disposes the texture it was called with. When the component is still mounted and all
  \<open>K > 0\<close> loads have completed, in whatever order, the installed texture is the one of
  the last load, it is the only live texture, and \<open>K - 1\<close> dispose calls were made.
\<close>

theorem texture_supersession:
  "loader_run init_slot evs = Some s \<longrightarrow>
     length (fired s) = issued evs \<and>
     distinct (tex_disposed s) \<and>
     (\<not> unmounted s \<longrightarrow>
        live_textures s = (case textureRef s of None \<Rightarrow> [] | Some k \<Rightarrow> [k])) \<and>
     (\<forall>k < length (fired s).
        (cancelled s ! k \<longleftrightarrow> (Suc k < length (fired s) \<or> unmounted s)) \<and>
        (\<not> fired s ! k \<and> cancelled s ! k \<longrightarrow>
           textureRef (on_load k s) = textureRef s \<and>
           imageTexture (on_load k s) = imageTexture s \<and>
           tex_disposed (on_load k s) = k # tex_disposed s)) \<and>
     (\<not> unmounted s \<and> 0 < issued evs \<and> list_all (\<lambda>b. b) (fired s) \<longrightarrow>
        textureRef s = Some (issued evs - 1) \<and>
        live_textures s = [issued evs - 1] \<and>
        length (tex_disposed s) = issued evs - 1)"
proof
  assume run: "loader_run init_slot evs = Some s"
  from loader_run_inv[OF init_slot_inv run] have inv: "loader_inv s" .
  from length_fired_run[OF run] have n: "length (fired s) = issued evs"
    by (simp add: init_slot_def)
  from inv have dist: "distinct (tex_disposed s)"
    and flags: "\<forall>k < length (fired s).
        cancelled s ! k \<longleftrightarrow> (Suc k < length (fired s) \<or> unmounted s)"
    unfolding loader_inv_def by blast+
  have stale: "textureRef (on_load k s) = textureRef s \<and>
        imageTexture (on_load k s) = imageTexture s \<and>
        tex_disposed (on_load k s) = k # tex_disposed s" if "cancelled s ! k" for k
    by (simp add: on_load_stale[OF that])
  have final: "textureRef s = Some (issued evs - 1) \<and>
        live_textures s = [issued evs - 1] \<and>
        length (tex_disposed s) = issued evs - 1"
    if "\<not> unmounted s" "0 < issued evs" "list_all (\<lambda>b. b) (fired s)"
    using all_fired_final[OF inv that(1) _ that(3)] that(2) n by simp
  note live = live_textures_installed[OF inv]
  from n dist live flags stale final
  show "length (fired s) = issued evs \<and>
     distinct (tex_disposed s) \<and>
     (\<not> unmounted s \<longrightarrow>
        live_textures s = (case textureRef s of None \<Rightarrow> [] | Some k \<Rightarrow> [k])) \<and>
     (\<forall>k < length (fired s).
        (cancelled s ! k \<longleftrightarrow> (Suc k < length (fired s) \<or> unmounted s)) \<and>
        (\<not> fired s ! k \<and> cancelled s ! k \<longrightarrow>
           textureRef (on_load k s) = textureRef s \<and>
           imageTexture (on_load k s) = imageTexture s \<and>
           tex_disposed (on_load k s) = k # tex_disposed s)) \<and>
     (\<not> unmounted s \<and> 0 < issued evs \<and> list_all (\<lambda>b. b) (fired s) \<longrightarrow>
        textureRef s = Some (issued evs - 1) \<and>
        live_textures s = [issued evs - 1] \<and>
        length (tex_disposed s) = issued evs - 1)"
    by blast
qed

theorem texture_supersession_witness:
  "loader_run init_slot churn_events = Some churn_result \<and>
   \<not> unmounted churn_result \<and> 0 < issued churn_events \<and>
   list_all (\<lambda>b. b) (fired churn_result) \<and>
   textureRef churn_result = Some 2 \<and>
   live_textures churn_result = [2] \<and>
   length (tex_disposed churn_result) = 2 \<and>
   loader_run init_slot [Issue, Issue] = Some pending_result \<and>
   \<not> fired pending_result ! 0 \<and> cancelled pending_result ! 0 \<and>
   textureRef (on_load 0 pending_result) = None \<and>
   tex_disposed (on_load 0 pending_result) = [0]"
proof -
  have run: "loader_run init_slot churn_events = Some churn_result"
    by (simp add: churn_events_def churn_result_def eval_loader)
  have hyp: "\<not> unmounted churn_result \<and> 0 < issued churn_events \<and>
      list_all (\<lambda>b. b) (fired churn_result)"
    by (simp add: churn_events_def churn_result_def issued_def)
  have k: "issued churn_events - 1 = 2"
    by (simp add: churn_events_def issued_def)
  from texture_supersession[where evs = churn_events and s = churn_result] run hyp
  have "textureRef churn_result = Some (issued churn_events - 1) \<and>
      live_textures churn_result = [issued churn_events - 1] \<and>
      length (tex_disposed churn_result) = issued churn_events - 1"
    by blast
  then have a: "textureRef churn_result = Some 2 \<and> live_textures churn_result = [2] \<and>
      length (tex_disposed churn_result) = 2"
    unfolding k .
  have run2: "loader_run init_slot [Issue, Issue] = Some pending_result"
    by (simp add: pending_result_def eval_loader)
  have hyp2: "0 < length (fired pending_result)" "\<not> fired pending_result ! 0"
    "cancelled pending_result ! 0"
    by (simp_all add: pending_result_def)
  from texture_supersession[where evs = "[Issue, Issue]" and s = pending_result] run2 hyp2
  have "textureRef (on_load 0 pending_result) = textureRef pending_result \<and>
      tex_disposed (on_load 0 pending_result) = 0 # tex_disposed pending_result"
    by blast
  then have b: "textureRef (on_load 0 pending_result) = None \<and>
      tex_disposed (on_load 0 pending_result) = [0]"
    by (simp add: pending_result_def)
  from run hyp a run2 hyp2 b show ?thesis by blast
qed

end
